(* ===== verification/Prelude.thy ===== *)
theory Prelude
  imports Main "HOL-Library.Sublist" "HOL-Library.List_Lexorder" "HOL-Library.Char_ord" "HOL-Library.Word"
begin

text \<open>
  Shared vocabulary of the development: the machine integer types, the result type of fallible
  operations, sequencing of fallible and of effectful steps, and the generic list, option and word
  facts that the component theories use. The collection \<open>prog_simps\<close> holds the equations that
  evaluate the sequencing combinators.
\<close>

named_theorems prog_simps \<open>equations of the sequencing combinators\<close>

section \<open>Machine integers\<close>

type_synonym u8 = "8 word"
type_synonym u16 = "16 word"
type_synonym u32 = "32 word"
type_synonym u64 = "64 word"

text \<open>Rust's \<open>u64::saturating_add\<close> and \<open>u64::saturating_sub\<close>.\<close>

definition sat_add :: "'a::len word \<Rightarrow> 'a word \<Rightarrow> 'a word" where
  "sat_add a b = (if unat a + unat b < 2 ^ LENGTH('a) then a + b else - 1)"

definition sat_sub :: "'a::len word \<Rightarrow> 'a word \<Rightarrow> 'a word" where
  "sat_sub a b = (if b \<le> a then a - b else 0)"

lemma unat_sat_add:
  "unat (sat_add a b) = min (unat a + unat b) (2 ^ LENGTH('a) - 1)" for a b :: "'a::len word"
proof (cases "unat a + unat b < 2 ^ LENGTH('a)")
  case True
  then have "unat (a + b) = unat a + unat b" by (rule unat_add_lem [THEN iffD1])
  with True show ?thesis by (simp add: sat_add_def)
next
  case False
  then show ?thesis by (simp add: sat_add_def unsigned_minus_1_eq_mask mask_eq_exp_minus_1)
qed

lemma unat_sat_sub: "unat (sat_sub a b) = unat a - unat b" for a b :: "'a::len word"
proof (cases "b \<le> a")
  case True
  then show ?thesis by (simp add: sat_sub_def unat_sub)
next
  case False
  then have "unat a < unat b" by (simp add: word_le_nat_alt)
  with False show ?thesis by (simp add: sat_sub_def)
qed

section \<open>Fallible steps\<close>

text \<open>
  A Rust \<open>Result\<close> is a sum with the error on the left. \<open>try_then\<close> is the \<open>?\<close> operator on pure
  results. An operation with effects maps a state to a result and the state after it;
  \<open>and_then\<close> runs the second one only where the first returned \<open>Ok\<close>, keeping the effects of both.
\<close>

type_synonym ('e, 'w) step = "'w \<Rightarrow> ('e + unit) \<times> 'w"

fun try_then :: "'e + 'a \<Rightarrow> ('a \<Rightarrow> 'e + 'b) \<Rightarrow> 'e + 'b" where
  "try_then (Inl e) f = Inl e"
| "try_then (Inr a) f = f a"

definition and_then :: "('e, 'w) step \<Rightarrow> ('e, 'w) step \<Rightarrow> ('e, 'w) step" where
  "and_then f g w = (case f w of (Inl e, w') \<Rightarrow> (Inl e, w') | (Inr _, w') \<Rightarrow> g w')"

definition is_ok :: "'e + 'a \<Rightarrow> bool" where
  "is_ok r = (case r of Inl _ \<Rightarrow> False | Inr _ \<Rightarrow> True)"

lemma is_ok_simps [simp]: "is_ok (Inr a)" "\<not> is_ok (Inl e)"
  by (simp_all add: is_ok_def)

lemma is_ok_unit: "is_ok r \<longleftrightarrow> r = Inr ()" for r :: "'e + unit"
  by (cases r) (auto simp: is_ok_def)

lemma and_then_Inr [prog_simps]: "f w = (Inr (), w') \<Longrightarrow> and_then f g w = g w'"
  by (simp add: and_then_def)

lemma and_then_Inl [prog_simps]: "f w = (Inl e, w') \<Longrightarrow> and_then f g w = (Inl e, w')"
  by (simp add: and_then_def)

lemma and_then_OkE:
  assumes "and_then f g w = (Inr (), w'')"
  obtains w' where "f w = (Inr (), w')" and "g w' = (Inr (), w'')"
  using assms by (auto simp: and_then_def split: prod.splits sum.splits)

lemma and_then_ErrE:
  assumes "and_then f g w = (Inl e, w'')"
  obtains "f w = (Inl e, w'')" | w' where "f w = (Inr (), w')" and "g w' = (Inl e, w'')"
  using assms by (auto simp: and_then_def split: prod.splits sum.splits)

lemma and_then_cases:
  obtains (first) e w' where "f w = (Inl e, w')" and "and_then f g w = (Inl e, w')"
  | (both) w' where "f w = (Inr (), w')" and "and_then f g w = g w'"
proof (cases "f w")
  case (Pair r w')
  show thesis
  proof (cases r)
    case (Inl e)
    with Pair that(1) show thesis by (simp add: and_then_def)
  next
    case (Inr u)
    with Pair that(2) show thesis by (simp add: and_then_def)
  qed
qed

lemma try_then_Inr: "try_then r f = Inr b \<longleftrightarrow> (\<exists>a. r = Inr a \<and> f a = Inr b)"
  by (cases r) auto

lemma try_then_OkE:
  assumes "try_then r f = Inr b"
  obtains a where "r = Inr a" and "f a = Inr b"
  using assms by (cases r) auto

text \<open>Rust's \<open>ensure!\<close>/\<open>bail!\<close> guards: go on only where the condition holds.\<close>

definition guard_err :: "bool \<Rightarrow> 'e \<Rightarrow> 'e + unit" where
  "guard_err b e = (if b then Inr () else Inl e)"

lemma guard_err_simps [simp]: "guard_err True e = Inr ()" "guard_err False e = Inl e"
  by (simp_all add: guard_err_def)

lemma guard_err_Inr [simp]: "guard_err b e = Inr u \<longleftrightarrow> b"
  by (simp add: guard_err_def)

section \<open>Lists\<close>

text \<open>\<open>Iterator::find\<close> with its index bookkeeping, and \<open>find_map\<close>.\<close>

fun find_map :: "('a \<Rightarrow> 'b option) \<Rightarrow> 'a list \<Rightarrow> 'b option" where
  "find_map f [] = None"
| "find_map f (x # xs) = (case f x of Some y \<Rightarrow> Some y | None \<Rightarrow> find_map f xs)"

lemma find_map_None: "find_map f xs = None \<longleftrightarrow> (\<forall>x \<in> set xs. f x = None)"
  by (induction xs) (auto split: option.splits)

lemma find_map_Some: "find_map f xs = Some y \<Longrightarrow> \<exists>x \<in> set xs. f x = Some y"
  by (induction xs) (auto split: option.splits)

lemma find_Some_set: "find P xs = Some x \<Longrightarrow> x \<in> set xs \<and> P x"
  by (auto simp: find_Some_iff)

lemma find_append: "find P (xs @ ys) = (case find P xs of None \<Rightarrow> find P ys | Some x \<Rightarrow> Some x)"
  by (induction xs) auto

lemma find_splitD:
  assumes "find P xs = Some x"
  obtains ys zs where "xs = ys @ x # zs" and "P x" and "\<forall>y \<in> set ys. \<not> P y"
proof -
  from assms have "\<exists>ys zs. xs = ys @ x # zs \<and> P x \<and> (\<forall>y \<in> set ys. \<not> P y)"
  proof (induction xs)
    case (Cons a xs)
    show ?case
    proof (cases "P a")
      case True
      with Cons.prems have "a # xs = [] @ x # xs" "P x" by simp_all
      then show ?thesis by fastforce
    next
      case False
      with Cons obtain ys zs where "xs = ys @ x # zs" "P x" "\<forall>y \<in> set ys. \<not> P y" by auto
      with False have "a # xs = (a # ys) @ x # zs" "\<forall>y \<in> set (a # ys). \<not> P y" by simp_all
      with \<open>P x\<close> show ?thesis by blast
    qed
  qed simp
  with that show thesis by blast
qed

lemma find_None_set: "find P xs = None \<longleftrightarrow> (\<forall>x \<in> set xs. \<not> P x)"
  by (auto simp: find_None_iff)

end
