(* ===== verification/Strs.thy ===== *)
theory Strs
  imports Prelude
begin

text \<open>
  The part of Rust's \<open>str\<close> and \<open>char\<close> interface that the program uses, on strings of ASCII
  characters (a Rust string is UTF-8; every string the program compares, splits or lowercases is
  ASCII in practice, and on ASCII the functions below are Rust's). Bytes above 127 are neither
  white space nor upper case here. The order on strings is the library's lexicographic order of
  bytes, which is Rust's \<open>Ord\<close> on \<open>str\<close>.
\<close>

section \<open>Characters\<close>

abbreviation code :: "char \<Rightarrow> nat" where
  "code c \<equiv> of_char c"

definition lower_char :: "char \<Rightarrow> char" where
  "lower_char c = (if 65 \<le> code c \<and> code c \<le> 90 then char_of (code c + 32) else c)"

definition is_ws :: "char \<Rightarrow> bool" where
  "is_ws c \<longleftrightarrow> code c = 32 \<or> (9 \<le> code c \<and> code c \<le> 13)"

definition is_digit :: "char \<Rightarrow> bool" where
  "is_digit c \<longleftrightarrow> 48 \<le> code c \<and> code c \<le> 57"

definition is_alnum :: "char \<Rightarrow> bool" where
  "is_alnum c \<longleftrightarrow> is_digit c \<or> (65 \<le> code c \<and> code c \<le> 90) \<or> (97 \<le> code c \<and> code c \<le> 122)"

definition is_hexdigit :: "char \<Rightarrow> bool" where
  "is_hexdigit c \<longleftrightarrow> is_digit c \<or> (65 \<le> code c \<and> code c \<le> 70) \<or> (97 \<le> code c \<and> code c \<le> 102)"

definition is_control :: "char \<Rightarrow> bool" where
  "is_control c \<longleftrightarrow> code c < 32 \<or> code c = 127"

definition lower :: "string \<Rightarrow> string" where
  "lower s = map lower_char s"

section \<open>Prefixes, suffixes and substrings\<close>

abbreviation starts_with :: "string \<Rightarrow> string \<Rightarrow> bool" where
  "starts_with s p \<equiv> prefix p s"

abbreviation ends_with :: "string \<Rightarrow> string \<Rightarrow> bool" where
  "ends_with s p \<equiv> suffix p s"

abbreviation contains :: "string \<Rightarrow> string \<Rightarrow> bool" where
  "contains s p \<equiv> sublist p s"

definition strip_prefix :: "string \<Rightarrow> string \<Rightarrow> string option" where
  "strip_prefix s p = (if prefix p s then Some (drop (length p) s) else None)"

definition strip_suffix :: "string \<Rightarrow> string \<Rightarrow> string option" where
  "strip_suffix s p = (if suffix p s then Some (take (length s - length p) s) else None)"

text \<open>\<open>str::find\<close> of a string: the offset of the first occurrence.\<close>

fun find_str :: "string \<Rightarrow> string \<Rightarrow> nat option" where
  "find_str [] p = (if p = [] then Some 0 else None)"
| "find_str (c # cs) p = (if prefix p (c # cs) then Some 0 else map_option Suc (find_str cs p))"

text \<open>
  \<open>str::replace\<close>: every occurrence, left to right, not overlapping. The argument is never empty in
  the program except through an empty quantisation name, where Rust puts the replacement between
  all characters.
\<close>

function replace :: "string \<Rightarrow> string \<Rightarrow> string \<Rightarrow> string" where
  "replace p r s =
     (case s of
        [] \<Rightarrow> (if p = [] then r else [])
      | c # cs \<Rightarrow>
          (if p = [] then r @ c # replace p r cs
           else if prefix p s then r @ replace p r (drop (length p) s)
           else c # replace p r cs))"
  by pat_completeness auto
termination
  by (relation "measure (\<lambda>(p, r, s). length s)") auto

declare replace.simps [simp del]

lemma replace_Nil [simp]: "p \<noteq> [] \<Longrightarrow> replace p r [] = []"
  by (subst replace.simps) simp

lemma replace_hit: "p \<noteq> [] \<Longrightarrow> replace p r (p @ s) = r @ replace p r s"
  by (subst replace.simps) (cases p; simp)

lemma replace_miss: "p \<noteq> [] \<Longrightarrow> \<not> prefix p (c # s) \<Longrightarrow> replace p r (c # s) = c # replace p r s"
  by (subst replace.simps) simp

lemma replace_absent: "p \<noteq> [] \<Longrightarrow> \<not> sublist p s \<Longrightarrow> replace p r s = s"
proof (induction s)
  case Nil
  then show ?case by simp
next
  case (Cons c s)
  then have "\<not> prefix p (c # s)" and "\<not> sublist p s"
    by (auto simp: sublist_Cons_right)
  with Cons show ?case by (simp add: replace_miss)
qed

section \<open>Trimming and splitting\<close>

definition trim_start :: "string \<Rightarrow> string" where
  "trim_start s = dropWhile is_ws s"

definition trim_end :: "string \<Rightarrow> string" where
  "trim_end s = rev (dropWhile is_ws (rev s))"

definition trim :: "string \<Rightarrow> string" where
  "trim s = trim_end (trim_start s)"

text \<open>\<open>str::split\<close> on the characters that satisfy a predicate; empty pieces are kept.\<close>

fun splits :: "(char \<Rightarrow> bool) \<Rightarrow> string \<Rightarrow> string list" where
  "splits P [] = [[]]"
| "splits P (c # cs) =
     (if P c then [] # splits P cs
      else (case splits P cs of [] \<Rightarrow> [[c]] | w # ws \<Rightarrow> (c # w) # ws))"

definition split_on :: "char \<Rightarrow> string \<Rightarrow> string list" where
  "split_on d s = splits (\<lambda>c. c = d) s"

definition split_ws :: "string \<Rightarrow> string list" where
  "split_ws s = filter (\<lambda>w. w \<noteq> []) (splits is_ws s)"

fun join :: "string \<Rightarrow> string list \<Rightarrow> string" where
  "join sep [] = []"
| "join sep [w] = w"
| "join sep (w # ws) = w @ sep @ join sep ws"

text \<open>
  \<open>str::lines\<close>: pieces ended by a newline, a trailing carriage return of a piece dropped, no final
  empty piece.
\<close>

definition strip_cr :: "string \<Rightarrow> string" where
  "strip_cr l = (if l \<noteq> [] \<and> last l = CHR 0x0D then butlast l else l)"

definition lines :: "string \<Rightarrow> string list" where
  "lines s =
     (let ps = splits (\<lambda>c. c = CHR 0x0A) s
      in map strip_cr (butlast ps) @ (if last ps = [] then [] else [last ps]))"

text \<open>\<open>split_once\<close> and \<open>rsplit_once\<close> on a character.\<close>

fun split_once :: "char \<Rightarrow> string \<Rightarrow> (string \<times> string) option" where
  "split_once d [] = None"
| "split_once d (c # cs) =
     (if c = d then Some ([], cs) else map_option (\<lambda>(a, b). (c # a, b)) (split_once d cs))"

definition rsplit_once :: "char \<Rightarrow> string \<Rightarrow> (string \<times> string) option" where
  "rsplit_once d s = map_option (\<lambda>(a, b). (rev b, rev a)) (split_once d (rev s))"

lemma splits_ne [simp]: "splits P s \<noteq> []"
  by (cases s) (auto split: list.splits)

lemma splits_no_sep: "w \<in> set (splits P s) \<Longrightarrow> c \<in> set w \<Longrightarrow> \<not> P c"
  by (induction s arbitrary: w) (auto split: if_splits list.splits, blast+)

lemma splits_chars: "w \<in> set (splits P s) \<Longrightarrow> set w \<subseteq> set s"
  by (induction s arbitrary: w) (fastforce split: if_splits list.splits)+

lemma splits_word: "\<forall>c \<in> set w. \<not> P c \<Longrightarrow> splits P w = [w]"
  by (induction w) auto

lemma splits_append_sep:
  "\<forall>c \<in> set w. \<not> P c \<Longrightarrow> P d \<Longrightarrow> splits P (w @ d # s) = w # splits P s"
  by (induction w) auto

definition word_ok :: "string \<Rightarrow> bool" where
  "word_ok w \<longleftrightarrow> w \<noteq> [] \<and> list_all (\<lambda>c. \<not> is_ws c) w"

lemma split_ws_words: "list_all word_ok (split_ws s)"
  by (auto simp: split_ws_def word_ok_def list_all_iff dest: splits_no_sep)

lemma is_ws_space [simp]: "is_ws CHR '' ''"
  by (simp add: is_ws_def)

text \<open>Splitting the joined words gives the words back.\<close>

lemma split_ws_join: "list_all word_ok ws \<Longrightarrow> split_ws (join '' '' ws) = ws"
proof (induction "'' ''" ws rule: join.induct)
  case 1
  then show ?case by (simp add: split_ws_def)
next
  case (2 w)
  then show ?case by (simp add: split_ws_def splits_word word_ok_def list_all_iff)
next
  case (3 w v ws)
  then show ?case
    by (simp add: split_ws_def splits_append_sep word_ok_def list_all_iff)
qed

lemma split_ws_Nil [simp]: "split_ws [] = []"
  by (simp add: split_ws_def)

lemma split_ws_append_word:
  assumes "word_ok w"
  shows "split_ws (s @ '' '' @ w) = split_ws s @ [w]"
proof -
  have w: "splits is_ws w = [w]"
    using assms by (simp add: splits_word word_ok_def list_all_iff)
  have "splits is_ws (s @ '' '' @ w) = splits is_ws s @ [w]"
    by (induction s) (auto simp: w split: list.splits)
  with assms show ?thesis by (simp add: split_ws_def word_ok_def)
qed

lemma lines_append:
  assumes "CHR 0x0A \<notin> set l"
  shows "lines (l @ CHR 0x0A # s) = strip_cr l # lines s"
proof -
  have "splits (\<lambda>c. c = CHR 0x0A) (l @ CHR 0x0A # s) = l # splits (\<lambda>c. c = CHR 0x0A) s"
    using assms by (intro splits_append_sep) auto
  then show ?thesis by (simp add: lines_def Let_def)
qed

lemma dropWhile_stop: "xs = [] \<or> \<not> P (hd xs) \<Longrightarrow> dropWhile P xs = xs"
  by (cases xs) auto

text \<open>Trimming keeps a text whose ends are not white space, and a beginning that is not.\<close>

lemma trim_id: "s = [] \<or> \<not> is_ws (hd s) \<and> \<not> is_ws (last s) \<Longrightarrow> trim s = s"
  by (auto simp: trim_def trim_start_def trim_end_def dropWhile_stop hd_rev)

lemma prefix_trim:
  assumes "w \<noteq> []" and "\<not> is_ws (hd w)" and "\<not> is_ws (last w)"
  shows "prefix w (trim (w @ s))"
proof -
  have "trim_start (w @ s) = w @ s" using assms by (cases w) (simp_all add: trim_start_def)
  moreover have "dropWhile is_ws (rev s @ rev w) = dropWhile is_ws (rev s) @ rev w"
  proof (cases "\<forall>c \<in> set (rev s). is_ws c")
    case True
    then have "dropWhile is_ws (rev s @ rev w) = dropWhile is_ws (rev w)"
      by (simp add: dropWhile_append)
    also have "\<dots> = rev w" using assms by (intro dropWhile_stop) (simp add: hd_rev)
    finally show ?thesis using True by (simp add: dropWhile_eq_Nil_conv)
  next
    case False
    then obtain c where "c \<in> set (rev s)" "\<not> is_ws c" by blast
    then show ?thesis by (rule dropWhile_append1)
  qed
  ultimately show ?thesis by (simp add: trim_def trim_end_def)
qed

lemma split_once_append: "d \<notin> set a \<Longrightarrow> split_once d (a @ d # b) = Some (a, b)"
  by (induction a) auto

lemma strip_prefix_append [simp]: "strip_prefix (p @ s) p = Some s"
  by (simp add: strip_prefix_def)

section \<open>Numbers\<close>

text \<open>Decimal rendering of an unsigned integer.\<close>

definition digit_char :: "nat \<Rightarrow> char" where
  "digit_char d = char_of (48 + d)"

fun show_nat :: "nat \<Rightarrow> string" where
  "show_nat n = (if n < 10 then [digit_char n] else show_nat (n div 10) @ [digit_char (n mod 10)])"

declare show_nat.simps [simp del]

text \<open>
  \<open>str::parse\<close> to an unsigned type with largest value \<open>m\<close>: digits only, one leading plus sign
  allowed, at least one digit, no overflow.
\<close>

definition digit_val :: "char \<Rightarrow> nat" where
  "digit_val c = code c - 48"

definition nat_of_digits :: "string \<Rightarrow> nat" where
  "nat_of_digits s = foldl (\<lambda>n c. 10 * n + digit_val c) 0 s"

definition parse_uint :: "nat \<Rightarrow> string \<Rightarrow> nat option" where
  "parse_uint m s =
     (let ds = (if s \<noteq> [] \<and> hd s = CHR ''+'' then tl s else s)
      in if ds \<noteq> [] \<and> list_all is_digit ds \<and> nat_of_digits ds \<le> m
         then Some (nat_of_digits ds) else None)"

abbreviation max_u8 :: nat where "max_u8 \<equiv> 255"
abbreviation max_u16 :: nat where "max_u16 \<equiv> 65535"
abbreviation max_u64 :: nat where "max_u64 \<equiv> 18446744073709551615"

lemma digit_char_digit: "d < 10 \<Longrightarrow> is_digit (digit_char d) \<and> digit_val (digit_char d) = d"
  by (simp add: digit_char_def is_digit_def digit_val_def)

lemma show_nat_digits: "list_all is_digit (show_nat n)"
proof (induction n rule: show_nat.induct)
  case (1 n)
  then show ?case
    by (subst show_nat.simps) (auto simp: digit_char_digit list_all_iff)
qed

lemma show_nat_ne [simp]: "show_nat n \<noteq> []"
  by (subst show_nat.simps) simp

lemma nat_of_digits_snoc: "nat_of_digits (s @ [c]) = 10 * nat_of_digits s + digit_val c"
  by (simp add: nat_of_digits_def)

lemma nat_of_show: "nat_of_digits (show_nat n) = n"
proof (induction n rule: show_nat.induct)
  case (1 n)
  show ?case
  proof (cases "n < 10")
    case True
    then show ?thesis
      by (subst show_nat.simps) (simp add: nat_of_digits_def digit_char_digit)
  next
    case False
    with 1 show ?thesis
      by (subst show_nat.simps) (simp add: nat_of_digits_snoc digit_char_digit)
  qed
qed

lemma hd_show_nat: "hd (show_nat n) \<noteq> CHR ''+''"
proof -
  have "is_digit (hd (show_nat n))"
    using show_nat_digits [of n] by (cases "show_nat n") auto
  then show ?thesis by (auto simp: is_digit_def)
qed

lemma parse_show_nat: "n \<le> m \<Longrightarrow> parse_uint m (show_nat n) = Some n"
  by (simp add: parse_uint_def hd_show_nat show_nat_digits nat_of_show)

lemma parse_uint_bound: "parse_uint m s = Some n \<Longrightarrow> n \<le> m"
  by (auto simp: parse_uint_def Let_def split: if_splits)

end
