(* ===== verification/Ordered_Map.thy ===== *)
theory Ordered_Map
  imports Strs
begin

text \<open>
  Rust's \<open>BTreeMap\<close>, which the program uses for environments, flag overrides, header metadata and
  grouped records: a list of key and value pairs in strictly ascending key order, so that iterating
  over the list is iterating over the map. The locale \<open>dict\<close> is the interface its clients rely on
  (what a lookup returns after an insert or a removal), \<open>ordered_dict\<close> adds that two maps with the
  same lookups are equal; both are interpreted on the list operations.
\<close>

section \<open>The operations\<close>

type_synonym ('k, 'v) btree = "('k \<times> 'v) list"

fun bt_get :: "('k, 'v) btree \<Rightarrow> 'k \<Rightarrow> 'v option" where
  "bt_get [] k = None"
| "bt_get ((k', v) # m) k = (if k = k' then Some v else bt_get m k)"

fun bt_insert :: "'k::linorder \<Rightarrow> 'v \<Rightarrow> ('k, 'v) btree \<Rightarrow> ('k, 'v) btree" where
  "bt_insert k v [] = [(k, v)]"
| "bt_insert k v ((k', v') # m) =
     (if k < k' then (k, v) # (k', v') # m
      else if k = k' then (k, v) # m
      else (k', v') # bt_insert k v m)"

fun bt_remove :: "'k \<Rightarrow> ('k, 'v) btree \<Rightarrow> ('k, 'v) btree" where
  "bt_remove k [] = []"
| "bt_remove k ((k', v') # m) = (if k = k' then m else (k', v') # bt_remove k m)"

definition bt_extend :: "('k::linorder, 'v) btree \<Rightarrow> ('k \<times> 'v) list \<Rightarrow> ('k, 'v) btree" where
  "bt_extend m kvs = foldl (\<lambda>m (k, v). bt_insert k v m) m kvs"

definition bt_wf :: "('k::linorder, 'v) btree \<Rightarrow> bool" where
  "bt_wf m \<longleftrightarrow> sorted_wrt (<) (map fst m)"

section \<open>The interface\<close>

locale dict =
  fixes get :: "'m \<Rightarrow> 'k \<Rightarrow> 'v option"
    and ins :: "'k \<Rightarrow> 'v \<Rightarrow> 'm \<Rightarrow> 'm"
    and rem :: "'k \<Rightarrow> 'm \<Rightarrow> 'm"
    and wf :: "'m \<Rightarrow> bool"
  assumes get_ins: "wf m \<Longrightarrow> get (ins k v m) k' = (if k' = k then Some v else get m k')"
    and get_rem: "wf m \<Longrightarrow> get (rem k m) k' = (if k' = k then None else get m k')"
    and wf_ins: "wf m \<Longrightarrow> wf (ins k v m)"
    and wf_rem: "wf m \<Longrightarrow> wf (rem k m)"
begin

lemma wf_extend: "wf m \<Longrightarrow> wf (foldl (\<lambda>m (k, v). ins k v m) m kvs)"
  by (induction kvs arbitrary: m) (auto simp: wf_ins)

text \<open>After a sequence of inserts the last one for a key counts.\<close>

lemma get_extend:
  "wf m \<Longrightarrow> get (foldl (\<lambda>m (k, v). ins k v m) m kvs) k =
     (case map_of (rev kvs) k of Some v \<Rightarrow> Some v | None \<Rightarrow> get m k)"
  by (induction kvs arbitrary: m)
    (auto simp: wf_ins get_ins map_add_def split: option.splits)

lemma get_rem_ins: "wf m \<Longrightarrow> get (rem k (ins k v m)) k' = (if k' = k then None else get m k')"
  by (simp add: get_rem get_ins wf_ins)

end

locale ordered_dict = dict +
  assumes ext: "wf m \<Longrightarrow> wf m' \<Longrightarrow> (\<And>k. get m k = get m' k) \<Longrightarrow> m = m'"
begin

lemma ins_ins: "wf m \<Longrightarrow> ins k v (ins k v' m) = ins k v m"
  by (rule ext) (auto simp: wf_ins get_ins)

lemma ins_commute: "wf m \<Longrightarrow> k \<noteq> k' \<Longrightarrow> ins k v (ins k' v' m) = ins k' v' (ins k v m)"
  by (rule ext) (auto simp: wf_ins get_ins)

lemma rem_ins: "wf m \<Longrightarrow> get m k = None \<Longrightarrow> rem k (ins k v m) = m"
  by (rule ext) (auto simp: wf_ins wf_rem get_ins get_rem)

end

section \<open>The list of pairs provides the interface\<close>

lemma bt_get_map_of: "bt_get m = map_of m"
proof
  show "bt_get m k = map_of m k" for k
    by (induction m) auto
qed

lemma bt_wf_Nil [simp]: "bt_wf []"
  by (simp add: bt_wf_def)

lemma bt_wf_Cons: "bt_wf ((k, v) # m) \<longleftrightarrow> bt_wf m \<and> (\<forall>k' \<in> fst ` set m. k < k')"
  by (auto simp: bt_wf_def)

lemma bt_keys_insert: "fst ` set (bt_insert k v m) = insert k (fst ` set m)"
  by (induction m) force+

lemma bt_keys_remove: "fst ` set (bt_remove k m) \<subseteq> fst ` set m"
  by (induction m) (force split: if_splits)+

lemma bt_get_insert: "bt_get (bt_insert k v m) k' = (if k' = k then Some v else bt_get m k')"
  by (induction m) auto

lemma bt_get_absent: "k \<notin> fst ` set m \<Longrightarrow> bt_get m k = None"
  by (induction m) auto

lemma bt_get_present: "k \<in> fst ` set m \<Longrightarrow> bt_get m k \<noteq> None"
  by (induction m) force+

lemma bt_wf_insert: "bt_wf m \<Longrightarrow> bt_wf (bt_insert k v m)"
proof (induction m)
  case Nil
  then show ?case by (simp add: bt_wf_Cons)
next
  case (Cons p m)
  then show ?case
    by (cases p) (auto simp: bt_wf_Cons bt_keys_insert simp del: image_insert)
qed

lemma bt_wf_remove: "bt_wf m \<Longrightarrow> bt_wf (bt_remove k m)"
proof (induction m)
  case Nil
  then show ?case by simp
next
  case (Cons p m)
  then show ?case using bt_keys_remove [of k m] by (cases p) (fastforce simp: bt_wf_Cons)
qed

lemma bt_get_remove:
  "bt_wf m \<Longrightarrow> bt_get (bt_remove k m) k' = (if k' = k then None else bt_get m k')"
proof (induction m)
  case Nil
  then show ?case by simp
next
  case (Cons p m)
  then show ?case by (cases p) (auto simp: bt_wf_Cons intro: bt_get_absent)
qed

lemma bt_ext:
  "bt_wf m \<Longrightarrow> bt_wf m' \<Longrightarrow> (\<And>k. bt_get m k = bt_get m' k) \<Longrightarrow> m = m'"
proof -
  assume wf: "bt_wf m" "bt_wf m'" and eq: "\<And>k. bt_get m k = bt_get m' k"
  have d: "distinct (map fst m)" "distinct (map fst m')"
    and s: "sorted (map fst m)" "sorted (map fst m')"
    using wf by (auto simp: bt_wf_def strict_sorted_iff)
  from eq have "map_of m = map_of m'" by (simp add: bt_get_map_of [symmetric] fun_eq_iff)
  then have "set m = set m'" using d by (simp add: map_of_inject_set)
  moreover have "inj_on fst (set m \<union> set m')"
    using d \<open>set m = set m'\<close> by (simp add: distinct_map)
  ultimately show "m = m'" using d s \<open>set m = set m'\<close>
    by (metis map_sorted_distinct_set_unique)
qed

interpretation bt: ordered_dict "bt_get :: ('k::linorder, 'v) btree \<Rightarrow> _" bt_insert bt_remove bt_wf
  by unfold_locales
    (auto simp: bt_get_insert bt_get_remove bt_wf_insert bt_wf_remove intro: bt_ext)

lemma bt_wf_extend: "bt_wf m \<Longrightarrow> bt_wf (bt_extend m kvs)"
  unfolding bt_extend_def by (rule bt.wf_extend)

lemma bt_get_extend:
  "bt_wf m \<Longrightarrow> bt_get (bt_extend m kvs) k =
     (case map_of (rev kvs) k of Some v \<Rightarrow> Some v | None \<Rightarrow> bt_get m k)"
  unfolding bt_extend_def by (rule bt.get_extend)

lemma bt_get_extend_wf:
  "bt_wf m \<Longrightarrow> bt_wf kvs \<Longrightarrow> bt_get (bt_extend m kvs) k =
     (case bt_get kvs k of Some v \<Rightarrow> Some v | None \<Rightarrow> bt_get m k)"
proof -
  assume "bt_wf m" and kvs: "bt_wf kvs"
  from kvs have "distinct (map fst kvs)"
    by (auto simp: bt_wf_def strict_sorted_iff)
  then have "map_of (rev kvs) = map_of kvs"
    by (simp add: map_of_inject_set rev_map [symmetric])
  with bt_get_extend [OF \<open>bt_wf m\<close>] show ?thesis by (simp add: bt_get_map_of)
qed

lemma bt_remove_filter: "bt_wf m \<Longrightarrow> bt_remove k m = filter (\<lambda>p. fst p \<noteq> k) m"
proof (induction m)
  case Nil
  then show ?case by simp
next
  case (Cons p m)
  then show ?case
    by (cases p) (fastforce simp: bt_wf_Cons intro: filter_True [symmetric])
qed

lemma bt_wf_filter: "bt_wf m \<Longrightarrow> bt_wf (filter P m)"
  by (induction m) (auto simp: bt_wf_Cons)

lemma bt_get_filter:
  "bt_wf m \<Longrightarrow> bt_get (filter (\<lambda>p. P (fst p)) m) k = (if P k then bt_get m k else None)"
  by (induction m) (auto simp: bt_wf_Cons intro: bt_get_absent)

lemma bt_get_Some_mem: "bt_get m k = Some v \<Longrightarrow> k \<in> fst ` set m"
  by (induction m) (auto split: if_splits)

lemma bt_extend_self: "bt_wf m \<Longrightarrow> bt_extend [] m = m"
  by (rule bt.ext) (auto simp: bt_wf_extend bt_get_extend_wf split: option.splits)

lemma bt_mem_keys: "k \<in> fst ` set m \<longleftrightarrow> bt_get m k \<noteq> None"
  using bt_get_present bt_get_Some_mem by fastforce

lemmas bt_simps = bt.get_ins bt.get_rem bt.wf_ins bt.wf_rem bt_wf_extend bt_get_extend_wf

end
