(* ===== verification/Pathlib.thy ===== *)
theory Pathlib
  imports Ordered_Map
begin

text \<open>
  The part of Rust's \<open>std::path::Path\<close> that the program uses, on Unix path strings: the last
  component, the parent, joining, and component-wise prefix. Trailing separators and trailing
  \<open>.\<close> components are not components, as in the library.
\<close>

definition sep :: char where "sep = CHR ''/''"

definition is_absolute :: "string \<Rightarrow> bool" where
  "is_absolute p \<longleftrightarrow> p \<noteq> [] \<and> hd p = sep"

text \<open>Drop trailing separators and \<open>/.\<close> tails of a reversed path; a lone root stays.\<close>

fun trim_tail :: "string \<Rightarrow> string" where
  "trim_tail (a # b # r) =
     (if a = sep then trim_tail (b # r)
      else if a = CHR ''.'' \<and> b = sep then trim_tail (b # r)
      else a # b # r)"
| "trim_tail r = r"

definition file_name :: "string \<Rightarrow> string option" where
  "file_name p =
     (let b = rev (takeWhile (\<lambda>c. c \<noteq> sep) (trim_tail (rev p)))
      in if b = [] \<or> b = ''.'' \<or> b = ''..'' then None else Some b)"

definition parent :: "string \<Rightarrow> string option" where
  "parent p =
     (let r = trim_tail (rev p)
      in if r = [] \<or> r = [sep] then None
         else Some (rev (trim_tail (dropWhile (\<lambda>c. c \<noteq> sep) r))))"

definition path_join :: "string \<Rightarrow> string \<Rightarrow> string" where
  "path_join a b =
     (if is_absolute b then b
      else if a = [] then b
      else if last a = sep then a @ b
      else a @ sep # b)"

definition with_file_name :: "string \<Rightarrow> string \<Rightarrow> string" where
  "with_file_name p n = (case parent p of None \<Rightarrow> path_join p n | Some d \<Rightarrow> path_join d n)"

text \<open>\<open>Path::extension\<close>: what follows the last dot of the file name, if a stem precedes the dot.\<close>

definition extension :: "string \<Rightarrow> string option" where
  "extension p =
     (case file_name p of
        None \<Rightarrow> None
      | Some n \<Rightarrow>
          (case rsplit_once (CHR ''.'') n of
             None \<Rightarrow> None
           | Some (stem, ext) \<Rightarrow> if stem = [] then None else Some ext))"

definition components :: "string \<Rightarrow> string list" where
  "components p = filter (\<lambda>w. w \<noteq> [] \<and> w \<noteq> ''.'') (split_on sep p)"

definition path_starts_with :: "string \<Rightarrow> string \<Rightarrow> bool" where
  "path_starts_with p q \<longleftrightarrow> is_absolute p = is_absolute q \<and> prefix (components q) (components p)"

text \<open>A plain file name has no separator and is not a dot name.\<close>

definition plain_name :: "string \<Rightarrow> bool" where
  "plain_name n \<longleftrightarrow> n \<noteq> [] \<and> n \<noteq> ''.'' \<and> n \<noteq> ''..'' \<and> sep \<notin> set n"

lemma trim_tail_plain:
  assumes "a \<noteq> sep" and "a = CHR ''.'' \<longrightarrow> r \<noteq> [] \<longrightarrow> hd r \<noteq> sep"
  shows "trim_tail (a # r) = a # r"
  using assms by (cases r) auto

lemma rev_plain:
  assumes "plain_name n"
  obtains a r where "rev n = a # r" and "a \<noteq> sep"
proof (cases "rev n")
  case Nil
  with assms show ?thesis by (simp add: plain_name_def)
next
  case (Cons a r)
  then have "a \<in> set n" by (metis list.set_intros(1) set_rev)
  with assms Cons that show ?thesis by (auto simp: plain_name_def)
qed

lemma file_name_plain_dir:
  assumes "plain_name n"
  shows "file_name (d @ sep # n) = Some n"
proof -
  from assms obtain a r where ar: "rev n = a # r" "a \<noteq> sep" by (rule rev_plain)
  have "a = CHR ''.'' \<longrightarrow> hd (r @ sep # rev d) \<noteq> sep"
  proof (cases r)
    case Nil
    with ar assms show ?thesis by (auto simp: plain_name_def)
  next
    case (Cons b t)
    then have "b \<in> set (rev n)" by (simp add: ar)
    with assms Cons show ?thesis by (auto simp: plain_name_def)
  qed
  then have "trim_tail (rev (d @ sep # n)) = rev n @ sep # rev d"
    using ar trim_tail_plain [of a "r @ sep # rev d"] by auto
  moreover have "takeWhile (\<lambda>c. c \<noteq> sep) (rev n @ sep # rev d) = rev n"
    using assms by (auto simp: plain_name_def takeWhile_append takeWhile_eq_all_conv)
  ultimately show ?thesis using assms by (auto simp: file_name_def plain_name_def)
qed

lemma file_name_plain:
  assumes "plain_name n"
  shows "file_name n = Some n"
proof -
  from assms obtain a r where ar: "rev n = a # r" "a \<noteq> sep" by (rule rev_plain)
  have "r \<noteq> [] \<longrightarrow> hd r \<noteq> sep"
  proof (cases r)
    case (Cons b t)
    then have "b \<in> set (rev n)" by (simp add: ar)
    with assms Cons show ?thesis by (auto simp: plain_name_def)
  qed simp
  then have "trim_tail (rev n) = rev n" using ar trim_tail_plain [of a r] by auto
  moreover have "takeWhile (\<lambda>c. c \<noteq> sep) (rev n) = rev n"
    using assms by (auto simp: plain_name_def takeWhile_eq_all_conv)
  ultimately have "file_name n = (if n = [] \<or> n = ''.'' \<or> n = ''..'' then None else Some n)"
    by (simp only: file_name_def Let_def rev_rev_ident)
  then show ?thesis using assms by (simp add: plain_name_def)
qed

lemma trim_tail_chars: "set (trim_tail r) \<subseteq> set r"
  by (induction r rule: trim_tail.induct) auto

lemma parent_chars: "parent p = Some d \<Longrightarrow> set d \<subseteq> set p"
  using trim_tail_chars set_dropWhileD
  by (fastforce simp: parent_def Let_def split: if_splits dest!: subsetD [OF trim_tail_chars])

lemma path_join_relative:
  "\<not> is_absolute b \<Longrightarrow> a \<noteq> [] \<Longrightarrow> last a \<noteq> sep \<Longrightarrow> path_join a b = a @ sep # b"
  by (simp add: path_join_def)

lemma path_join_sep:
  "a \<noteq> [] \<Longrightarrow> sep \<in> set (path_join a b)"
  by (cases a rule: rev_cases) (auto simp: path_join_def is_absolute_def neq_Nil_conv)

lemma file_name_no_sep: "file_name p = Some n \<Longrightarrow> plain_name n"
  by (auto simp: file_name_def plain_name_def Let_def dest: set_takeWhileD split: if_splits)

end
