(* ===== verification/Build.thy ===== *)
theory Build
  imports Pathlib
begin

text \<open>
  The llama.cpp build manager (src/src/build.rs): recipes and their validation, version slugs, and
  the versioned store of one build name with its install, rollback and garbage collection.

  The store \<open>bdir\<close> is the directory \<open>builds/<name>/\<close>: its sub-directories with the files they hold
  (\<open>dirs\<close>, staging directories with a leading dot included, listed in name order), the target of the
  symlink \<open>current\<close>, and the parsed install ledger (\<open>[]\<close> for an absent or unreadable one). \<open>locked\<close>
  says that another process holds the build lock. \<open>faults\<close> is the environment: the outcome of each
  fallible file-system call, in order, success once the list is used up; a failing
  \<open>remove_dir_all\<close> may have removed some of the files. The \<open>Builder\<close> seam (git and cmake) is a
  parameter: the resolution of a ref and the files it puts into the staging directory.
\<close>

section \<open>Recipes\<close>

record build_spec =
  bname :: string
  git_url :: string
  git_ref :: string
  cmake_flags :: string
  out_bins :: "string list"

datatype spec_error =
    Empty_name
  | Unsafe_name string
  | Reserved_name string
  | Duplicate_name string
  | No_url string
  | Bad_url string
  | No_ref string
  | Option_ref string
  | No_out_bins string

definition name_char :: "char \<Rightarrow> bool" where
  "name_char c \<longleftrightarrow> is_alnum c \<or> c = CHR ''-'' \<or> c = CHR ''_'' \<or> c = CHR ''.''"

definition url_schemes :: "string list" where
  "url_schemes = [''https://'', ''http://'', ''ssh://'', ''git://'', ''git@'']"

fun validate_from :: "string list \<Rightarrow> build_spec list \<Rightarrow> spec_error + unit" where
  "validate_from seen [] = Inr ()"
| "validate_from seen (s # ss) =
     (if bname s = [] then Inl Empty_name
      else if \<not> list_all name_char (bname s) then Inl (Unsafe_name (bname s))
      else if bname s = ''current'' \<or> starts_with (bname s) ''.'' then Inl (Reserved_name (bname s))
      else if bname s \<in> set seen then Inl (Duplicate_name (bname s))
      else if git_url s = [] then Inl (No_url (bname s))
      else if starts_with (git_url s) ''-'' \<or> \<not> list_ex (\<lambda>p. starts_with (git_url s) p) url_schemes
      then Inl (Bad_url (bname s))
      else if git_ref s = [] then Inl (No_ref (bname s))
      else if starts_with (git_ref s) ''-'' then Inl (Option_ref (bname s))
      else if out_bins s = [] then Inl (No_out_bins (bname s))
      else validate_from (bname s # seen) ss)"

definition validate_specs :: "build_spec list \<Rightarrow> spec_error + unit" where
  "validate_specs ss = validate_from [] ss"

definition find_spec :: "build_spec list \<Rightarrow> string \<Rightarrow> build_spec option" where
  "find_spec ss n = find (\<lambda>s. bname s = n) ss"

text \<open>The \<open>--ref\<close> override of \<open>llmtune build install\<close>.\<close>

datatype ref_error = No_such_build | Ref_empty | Ref_option

definition resolve_build_spec :: "build_spec list \<Rightarrow> string \<Rightarrow> string option \<Rightarrow> ref_error + build_spec" where
  "resolve_build_spec ss n ov =
     (case find_spec ss n of
        None \<Rightarrow> Inl No_such_build
      | Some s \<Rightarrow>
          (case ov of
             None \<Rightarrow> Inr s
           | Some r \<Rightarrow>
               if r = [] then Inl Ref_empty
               else if starts_with r ''-'' then Inl Ref_option
               else Inr (s\<lparr>git_ref := r\<rparr>)))"

section \<open>Slugs\<close>

definition is_hex :: "string \<Rightarrow> bool" where
  "is_hex s \<longleftrightarrow> s \<noteq> [] \<and> list_all is_hexdigit s"

definition slug_char :: "char \<Rightarrow> char" where
  "slug_char c = (if name_char c then c else CHR ''-'')"

definition slug :: "string \<Rightarrow> string" where
  "slug commit =
     (let c = trim commit
      in if is_hex c \<and> 7 \<le> length c then lower (take (min (length c) 12) c)
         else take 24 (map slug_char c))"

text \<open>\<open>RealBuilder::resolve_ref\<close>; \<open>ls_remote\<close> is the output of \<open>git ls-remote\<close>.\<close>

definition real_resolve_ref :: "(string \<Rightarrow> string \<Rightarrow> string option) \<Rightarrow> build_spec \<Rightarrow> string option" where
  "real_resolve_ref ls_remote sp =
     (if is_hex (git_ref sp) \<and> 7 \<le> length (git_ref sp) then Some (lower (git_ref sp))
      else (case ls_remote (git_url sp) (git_ref sp) of
              None \<Rightarrow> None
            | Some out \<Rightarrow>
                (case lines out of
                   [] \<Rightarrow> None
                 | l # _ \<Rightarrow>
                     (case split_ws l of
                        [] \<Rightarrow> None
                      | sha # _ \<Rightarrow> if is_hex sha \<and> 7 \<le> length sha then Some sha else None))))"

section \<open>The version store\<close>

datatype io = Io_ok | Io_fail nat

record bdir =
  dirs :: "(string, string list) btree"
  cur :: "string option"
  ledger :: "string list"
  locked :: bool
  faults :: "io list"

datatype build_error =
    Build_busy
  | Resolve_failed string
  | Ref_unresolved
  | Io_failed string
  | Produce_failed string
  | Missing_bins "string list"
  | No_prior_version

definition pop_io :: "bdir \<Rightarrow> io \<times> bdir" where
  "pop_io w = (case faults w of [] \<Rightarrow> (Io_ok, w) | f # fs \<Rightarrow> (f, w\<lparr>faults := fs\<rparr>))"

definition io_step :: "string \<Rightarrow> (build_error, bdir) step" where
  "io_step what w =
     (case pop_io w of
        (Io_ok, w') \<Rightarrow> (Inr (), w')
      | (Io_fail _, w') \<Rightarrow> (Inl (Io_failed what), w'))"

definition pure_step :: "(bdir \<Rightarrow> bdir) \<Rightarrow> (build_error, bdir) step" where
  "pure_step f w = (Inr (), f w)"

text \<open>\<open>remove_dir_all\<close> with its result dropped: all of it, or on a fault its first \<open>n\<close> files only.\<close>

definition remove_dir :: "string \<Rightarrow> bdir \<Rightarrow> bdir" where
  "remove_dir n w =
     (case pop_io w of
        (Io_ok, w') \<Rightarrow> w'\<lparr>dirs := bt_remove n (dirs w')\<rparr>
      | (Io_fail k, w') \<Rightarrow>
          (case bt_get (dirs w') n of
             None \<Rightarrow> w'
           | Some fs \<Rightarrow> w'\<lparr>dirs := bt_insert n (drop k fs) (dirs w')\<rparr>))"

definition has_bins :: "string list \<Rightarrow> string list \<Rightarrow> bool" where
  "has_bins files bins \<longleftrightarrow> list_all (\<lambda>b. b \<in> set files) bins"

definition complete :: "bdir \<Rightarrow> string \<Rightarrow> string list \<Rightarrow> bool" where
  "complete w s bins = (case bt_get (dirs w) s of None \<Rightarrow> False | Some fs \<Rightarrow> has_bins fs bins)"

definition rpc_bin_names :: "string list" where
  "rpc_bin_names = [''ggml-rpc-server'', ''rpc-server'']"

definition has_rpc :: "bdir \<Rightarrow> string \<Rightarrow> bool" where
  "has_rpc w s =
     (case bt_get (dirs w) s of
        None \<Rightarrow> False
      | Some fs \<Rightarrow> list_ex (\<lambda>b. b \<in> set fs) rpc_bin_names)"

definition version_name :: "string \<Rightarrow> bool" where
  "version_name n \<longleftrightarrow> n \<noteq> ''current'' \<and> \<not> starts_with n ''.''"

definition installed_slugs :: "bdir \<Rightarrow> string list" where
  "installed_slugs w = filter version_name (map fst (dirs w))"

text \<open>
  \<open>flip_current\<close>: the directory, a fresh symlink beside the old one, and the rename over it, the
  only call that changes what \<open>current\<close> names.
\<close>

definition flip_current :: "string \<Rightarrow> (build_error, bdir) step" where
  "flip_current s =
     and_then (io_step ''create dir'')
       (and_then (io_step ''symlink'')
          (and_then (io_step ''rename'') (pure_step (\<lambda>w. w\<lparr>cur := Some s\<rparr>))))"

definition ledger_save :: "string list \<Rightarrow> (build_error, bdir) step" where
  "ledger_save order = and_then (io_step ''ledger'') (pure_step (\<lambda>w. w\<lparr>ledger := order\<rparr>))"

definition ledger_touch :: "string \<Rightarrow> (build_error, bdir) step" where
  "ledger_touch s w = ledger_save (filter (\<lambda>x. x \<noteq> s) (ledger w) @ [s]) w"

section \<open>Garbage collection\<close>

definition keep_set :: "nat \<Rightarrow> bdir \<Rightarrow> string set" where
  "keep_set retain w =
     set (take (max retain 1) (filter (\<lambda>s. s \<in> set (installed_slugs w)) (rev (ledger w)))) \<union>
     set_option (cur w)"

definition gc :: "nat \<Rightarrow> (build_error, bdir) step" where
  "gc retain w =
     (let keep = keep_set retain w;
          drops = filter (\<lambda>s. s \<notin> keep) (installed_slugs w);
          w1 = foldl (\<lambda>w s. remove_dir s w) w drops;
          pruned = filter (\<lambda>s. s \<in> keep) (ledger w)
      in if pruned \<noteq> ledger w1 then ledger_save pruned w1 else (Inr (), w1))"

section \<open>Install and rollback\<close>

datatype action = Built | Already_current | Switched

record install_outcome =
  o_commit :: string
  o_slug :: string
  o_action :: action
  o_previous :: "string option"
  o_rpc :: bool

text \<open>The common tail of the two installing paths: flip, ledger, garbage collection.\<close>

definition activate :: "nat \<Rightarrow> string \<Rightarrow> (build_error, bdir) step" where
  "activate retain s = and_then (flip_current s) (and_then (ledger_touch s) (gc retain))"

definition stage_name :: "string \<Rightarrow> string" where
  "stage_name s = ''.stage-'' @ s"

text \<open>\<open>rename\<close> of the staging directory onto the version directory, which must be absent or empty.\<close>

definition rename_stage :: "string \<Rightarrow> (build_error, bdir) step" where
  "rename_stage s w =
     (case io_step ''install build'' w of
        (Inl e, w') \<Rightarrow> (Inl e, w')
      | (Inr _, w') \<Rightarrow>
          (case (bt_get (dirs w') (stage_name s), bt_get (dirs w') s) of
             (None, _) \<Rightarrow> (Inl (Io_failed ''install build''), w')
           | (Some fs, Some (_ # _)) \<Rightarrow> (Inl (Io_failed ''install build''), w')
           | (Some fs, _) \<Rightarrow>
               (Inr (), w'\<lparr>dirs := bt_insert s fs (bt_remove (stage_name s) (dirs w'))\<rparr>)))"

text \<open>
  The compile: a fresh staging directory, \<open>produce\<close>, the check of the binaries, and the move into
  place. \<open>produce\<close> returns its error, if any, and the files it has put into the staging directory.
\<close>

definition stage_files :: "bdir \<Rightarrow> string \<Rightarrow> string list" where
  "stage_files w st = (case bt_get (dirs w) st of None \<Rightarrow> [] | Some fs \<Rightarrow> fs)"

definition build_version :: "(build_spec \<Rightarrow> string \<Rightarrow> string option \<times> string list) \<Rightarrow> build_spec \<Rightarrow> string
    \<Rightarrow> (build_error, bdir) step" where
  "build_version produce sp commit w =
     (let s = slug commit; st = stage_name s
      in case io_step ''create stage'' (remove_dir st w) of
           (Inl e, w2) \<Rightarrow> (Inl e, w2)
         | (Inr _, w2) \<Rightarrow>
             (let (err, fs) = produce sp commit;
                  files = stage_files w2 st @ fs;
                  w3 = w2\<lparr>dirs := bt_insert st files (dirs w2)\<rparr>
              in case err of
                   Some e \<Rightarrow> (Inl (Produce_failed e), remove_dir st w3)
                 | None \<Rightarrow>
                     if \<not> has_bins files (out_bins sp)
                     then (Inl (Missing_bins (filter (\<lambda>b. b \<notin> set files) (out_bins sp))),
                           remove_dir st w3)
                     else rename_stage s (remove_dir s w3)))"

definition mk_outcome :: "string \<Rightarrow> action \<Rightarrow> string option \<Rightarrow> bool \<Rightarrow> install_outcome" where
  "mk_outcome commit a prev rpc =
     \<lparr>o_commit = commit, o_slug = slug commit, o_action = a, o_previous = prev, o_rpc = rpc\<rparr>"

definition install :: "(build_spec \<Rightarrow> string + string) \<Rightarrow> (build_spec \<Rightarrow> string \<Rightarrow> string option \<times> string list)
    \<Rightarrow> build_spec \<Rightarrow> nat \<Rightarrow> bdir \<Rightarrow> (build_error + install_outcome) \<times> bdir" where
  "install resolve produce sp retain w =
     (if locked w then (Inl Build_busy, w)
      else case resolve sp of
        Inl e \<Rightarrow> (Inl (Resolve_failed e), w)
      | Inr commit \<Rightarrow>
          if trim commit = [] then (Inl Ref_unresolved, w)
          else let s = slug commit in
            (case io_step ''create build dir'' w of
               (Inl e, w1) \<Rightarrow> (Inl e, w1)
             | (Inr _, w1) \<Rightarrow>
                 if complete w1 s (out_bins sp) then
                   (if cur w1 = Some s
                    then (Inr (mk_outcome commit Already_current (cur w1) (has_rpc w1 s)), w1)
                    else (case activate retain s w1 of
                            (Inl e, w2) \<Rightarrow> (Inl e, w2)
                          | (Inr _, w2) \<Rightarrow>
                              (Inr (mk_outcome commit Switched (cur w1) (has_rpc w1 s)), w2)))
                 else
                   (case build_version produce sp commit w1 of
                      (Inl e, w2) \<Rightarrow> (Inl e, w2)
                    | (Inr _, w2) \<Rightarrow>
                        (case activate retain s w2 of
                           (Inl e, w3) \<Rightarrow> (Inl e, w3)
                         | (Inr _, w3) \<Rightarrow>
                             (Inr (mk_outcome commit Built (cur w1) (has_rpc w2 s)), w3)))))"

definition rollback_target :: "bdir \<Rightarrow> string option" where
  "rollback_target w =
     (let inst = installed_slugs w in
      case find (\<lambda>s. Some s \<noteq> cur w \<and> s \<in> set inst) (rev (ledger w)) of
        Some s \<Rightarrow> Some s
      | None \<Rightarrow> find (\<lambda>s. Some s \<noteq> cur w) inst)"

definition rollback_build :: "bdir \<Rightarrow> (build_error + (string option \<times> string)) \<times> bdir" where
  "rollback_build w =
     (if locked w then (Inl Build_busy, w)
      else case rollback_target w of
        None \<Rightarrow> (Inl No_prior_version, w)
      | Some t \<Rightarrow>
          (case flip_current t w of
             (Inl e, w') \<Rightarrow> (Inl e, w')
           | (Inr _, w') \<Rightarrow> (Inr (cur w, t), w')))"

section \<open>Lookups and listing\<close>

text \<open>A store per build name under the state directory \<open>root\<close>.\<close>

definition name_dir :: "string \<Rightarrow> string \<Rightarrow> string" where
  "name_dir root n = path_join (path_join root ''builds'') n"

definition current_bin :: "string \<Rightarrow> (string \<Rightarrow> bdir) \<Rightarrow> string \<Rightarrow> string \<Rightarrow> string option" where
  "current_bin root st n b =
     (case cur (st n) of
        None \<Rightarrow> None
      | Some s \<Rightarrow>
          (case bt_get (dirs (st n)) s of
             None \<Rightarrow> None
           | Some fs \<Rightarrow>
               if b \<in> set fs then Some (path_join (path_join (name_dir root n) ''current'') b) else None))"

definition current_dir :: "string \<Rightarrow> (string \<Rightarrow> bdir) \<Rightarrow> string \<Rightarrow> string option" where
  "current_dir root st n =
     (case cur (st n) of
        None \<Rightarrow> None
      | Some s \<Rightarrow>
          (case bt_get (dirs (st n)) s of
             None \<Rightarrow> None
           | Some _ \<Rightarrow> Some (path_join (name_dir root n) s)))"

definition current_version :: "(string \<Rightarrow> bdir) \<Rightarrow> string \<Rightarrow> string option" where
  "current_version st n = cur (st n)"

definition current_rpc_bin :: "string \<Rightarrow> (string \<Rightarrow> bdir) \<Rightarrow> string \<Rightarrow> string option" where
  "current_rpc_bin root st n = find_map (current_bin root st n) rpc_bin_names"

record version =
  v_slug :: string
  v_current :: bool

text \<open>The rank of a slug: its position in the ledger read newest first, the unknown ones last.\<close>

fun position :: "'a \<Rightarrow> 'a list \<Rightarrow> nat option" where
  "position x [] = None"
| "position x (y # ys) = (if x = y then Some 0 else map_option Suc (position x ys))"

definition rank :: "string list \<Rightarrow> string \<Rightarrow> nat" where
  "rank order s = (case position s (rev order) of None \<Rightarrow> max_u64 | Some i \<Rightarrow> i)"

definition list_versions :: "bdir \<Rightarrow> version list" where
  "list_versions w =
     sort_key (\<lambda>v. rank (ledger w) (v_slug v))
       (map (\<lambda>s. \<lparr>v_slug = s, v_current = (Some s = cur w)\<rparr>) (installed_slugs w))"

section \<open>Frame facts of the single steps\<close>

lemma pop_io_frame [simp]:
  "pop_io w = (f, w') \<Longrightarrow> w' = w\<lparr>faults := tl (faults w)\<rparr>"
  by (auto simp: pop_io_def split: list.splits)

lemma pop_io_free [simp]: "faults w = [] \<Longrightarrow> pop_io w = (Io_ok, w)"
  by (simp add: pop_io_def)

lemma io_step_frame:
  "io_step what w = (r, w') \<Longrightarrow> w' = w\<lparr>faults := tl (faults w)\<rparr>"
  by (auto simp: io_step_def split: prod.splits io.splits dest: pop_io_frame)

lemma io_step_free [simp]: "faults w = [] \<Longrightarrow> io_step what w = (Inr (), w)"
  by (simp add: io_step_def)

lemma io_step_err: "io_step what w = (Inl e, w') \<Longrightarrow> e = Io_failed what"
  by (auto simp: io_step_def split: prod.splits io.splits)

lemma remove_dir_rest [simp]:
  "cur (remove_dir n w) = cur w" "ledger (remove_dir n w) = ledger w" "locked (remove_dir n w) = locked w"
  by (auto simp: remove_dir_def split: prod.splits io.splits option.splits dest: pop_io_frame)

lemma remove_dir_wf [simp]: "bt_wf (dirs w) \<Longrightarrow> bt_wf (dirs (remove_dir n w))"
  by (auto simp: remove_dir_def bt_simps split: prod.splits io.splits option.splits dest: pop_io_frame)

lemma remove_dir_other:
  "bt_wf (dirs w) \<Longrightarrow> m \<noteq> n \<Longrightarrow> bt_get (dirs (remove_dir n w)) m = bt_get (dirs w) m"
  by (auto simp: remove_dir_def bt_simps split: prod.splits io.splits option.splits dest: pop_io_frame)

lemma remove_dir_free:
  "faults w = [] \<Longrightarrow> remove_dir n w = w\<lparr>dirs := bt_remove n (dirs w)\<rparr>"
  by (simp add: remove_dir_def)

lemma remove_dirs_rest [simp]:
  "cur (foldl (\<lambda>w s. remove_dir s w) w ns) = cur w"
  "ledger (foldl (\<lambda>w s. remove_dir s w) w ns) = ledger w"
  "locked (foldl (\<lambda>w s. remove_dir s w) w ns) = locked w"
  by (induction ns arbitrary: w) auto

lemma remove_dirs_wf [simp]:
  "bt_wf (dirs w) \<Longrightarrow> bt_wf (dirs (foldl (\<lambda>w s. remove_dir s w) w ns))"
  by (induction ns arbitrary: w) auto

lemma remove_dirs_other:
  "bt_wf (dirs w) \<Longrightarrow> m \<notin> set ns \<Longrightarrow>
     bt_get (dirs (foldl (\<lambda>w s. remove_dir s w) w ns)) m = bt_get (dirs w) m"
  by (induction ns arbitrary: w) (auto simp: remove_dir_other)

lemma complete_cong:
  "bt_get (dirs w') s = bt_get (dirs w) s \<Longrightarrow> complete w' s bins = complete w s bins"
  by (simp add: complete_def)

lemma complete_upd [simp]:
  "complete (w\<lparr>faults := x\<rparr>) s bins = complete w s bins"
  "complete (w\<lparr>cur := c\<rparr>) s bins = complete w s bins"
  "complete (w\<lparr>ledger := l\<rparr>) s bins = complete w s bins"
  by (simp_all add: complete_def)

lemma flip_current_frame:
  assumes "flip_current s w = (r, w')"
  shows "\<exists>fs. w' = w\<lparr>faults := fs, cur := (if is_ok r then Some s else cur w)\<rparr>"
proof -
  from assms show ?thesis
    unfolding flip_current_def and_then_def pure_step_def
    by (auto split: prod.splits sum.splits dest!: io_step_frame intro!: exI)
qed


lemma ledger_save_frame:
  assumes "ledger_save l w = (r, w')"
  shows "\<exists>fs. w' = w\<lparr>faults := fs, ledger := (if is_ok r then l else ledger w)\<rparr>"
  using assms unfolding ledger_save_def and_then_def pure_step_def
  by (auto split: prod.splits sum.splits dest!: io_step_frame intro!: exI)

lemma ledger_touch_frame:
  assumes "ledger_touch s w = (r, w')"
  shows "cur w' = cur w" "dirs w' = dirs w" "locked w' = locked w"
  using ledger_save_frame assms unfolding ledger_touch_def by force+

lemma gc_frame:
  assumes "gc retain w = (r, w')"
  shows "cur w' = cur w" and "locked w' = locked w"
    and "bt_wf (dirs w) \<Longrightarrow> bt_wf (dirs w')"
    and "bt_wf (dirs w) \<Longrightarrow> s \<in> keep_set retain w \<Longrightarrow> bt_get (dirs w') s = bt_get (dirs w) s"
proof -
  let ?ns = "filter (\<lambda>s. s \<notin> keep_set retain w) (installed_slugs w)"
  let ?w1 = "foldl (\<lambda>w s. remove_dir s w) w ?ns"
  have "w' = ?w1 \<or> (\<exists>fs l. w' = ?w1\<lparr>faults := fs, ledger := l\<rparr>)"
  proof (cases "filter (\<lambda>s. s \<in> keep_set retain w) (ledger w) = ledger ?w1")
    case True
    with assms show ?thesis by (simp add: gc_def Let_def)
  next
    case False
    with assms have "ledger_save (filter (\<lambda>s. s \<in> keep_set retain w) (ledger w)) ?w1 = (r, w')"
      by (simp add: gc_def Let_def)
    from ledger_save_frame [OF this] show ?thesis by blast
  qed
  then have d: "dirs w' = dirs ?w1" and "cur w' = cur ?w1" and "locked w' = locked ?w1" by auto
  then show "cur w' = cur w" and "locked w' = locked w" by simp_all
  show "bt_wf (dirs w) \<Longrightarrow> bt_wf (dirs w')" by (simp add: d)
  show "bt_wf (dirs w) \<Longrightarrow> s \<in> keep_set retain w \<Longrightarrow> bt_get (dirs w') s = bt_get (dirs w) s"
    unfolding d by (rule remove_dirs_other) auto
qed

lemma cur_in_keep [simp]: "cur w = Some s \<Longrightarrow> s \<in> keep_set retain w"
  by (simp add: keep_set_def)

lemma activate_frame:
  assumes act: "activate retain s w = (r, w')" and wf: "bt_wf (dirs w)"
  shows "bt_wf (dirs w') \<and>
    ((\<not> is_ok r \<and> cur w' = cur w \<and> dirs w' = dirs w) \<or>
     (cur w' = Some s \<and> bt_get (dirs w') s = bt_get (dirs w) s))"
proof -
  obtain r1 w1 where 1: "flip_current s w = (r1, w1)" by fastforce
  obtain fs where w1: "w1 = w\<lparr>faults := fs, cur := (if is_ok r1 then Some s else cur w)\<rparr>"
    using flip_current_frame [OF 1] by blast
  show ?thesis
  proof (cases r1)
    case (Inl e)
    with act 1 have "r = Inl e" "w' = w1" by (auto simp: activate_def and_then_def)
    with Inl w1 wf show ?thesis by simp
  next
    case (Inr u)
    obtain r2 w2 where 2: "ledger_touch s w1 = (r2, w2)" by fastforce
    have w2: "cur w2 = Some s" "dirs w2 = dirs w"
      using ledger_touch_frame [OF 2] w1 Inr by simp_all
    show ?thesis
    proof (cases r2)
      case (Inl e)
      with act 1 2 Inr have "w' = w2" by (auto simp: activate_def and_then_def)
      with w2 wf show ?thesis by simp
    next
      case (Inr v)
      with act 1 2 \<open>r1 = Inr u\<close> have 3: "gc retain w2 = (r, w')"
        by (auto simp: activate_def and_then_def)
      have "s \<in> keep_set retain w2" using w2 by simp
      then show ?thesis using gc_frame [OF 3] w2 wf by simp
    qed
  qed
qed

lemma stage_not_version: "\<not> version_name (stage_name s)"
  by (simp add: version_name_def stage_name_def)

lemma rename_stage_frame:
  assumes "rename_stage s w = (r, w')" and wf: "bt_wf (dirs w)"
  shows "cur w' = cur w \<and> ledger w' = ledger w \<and> bt_wf (dirs w') \<and>
    (\<forall>t. t \<noteq> s \<longrightarrow> t \<noteq> stage_name s \<longrightarrow> bt_get (dirs w') t = bt_get (dirs w) t) \<and>
    (is_ok r \<longrightarrow> bt_get (dirs w') s = bt_get (dirs w) (stage_name s))"
  using assms unfolding rename_stage_def
  by (auto simp: bt_simps stage_name_def split: prod.splits sum.splits option.splits list.splits
      dest!: io_step_frame)

text \<open>The errors of a build that stopped before the move into place.\<close>

definition early_error :: "build_error \<Rightarrow> bool" where
  "early_error e \<longleftrightarrow>
     (case e of Io_failed what \<Rightarrow> what = ''create build dir'' \<or> what = ''create stage'' | _ \<Rightarrow> True)"

lemma build_version_frame:
  assumes run: "build_version produce sp commit w = (r, w')" and wf: "bt_wf (dirs w)"
    and s: "s = slug commit"
  shows "cur w' = cur w \<and> ledger w' = ledger w \<and> bt_wf (dirs w') \<and>
    (\<forall>t. t \<noteq> s \<longrightarrow> t \<noteq> stage_name s \<longrightarrow> bt_get (dirs w') t = bt_get (dirs w) t) \<and>
    (is_ok r \<longrightarrow> complete w' s (out_bins sp)) \<and>
    (\<forall>e. r = Inl e \<longrightarrow> early_error e \<longrightarrow> bt_get (dirs w') s = bt_get (dirs w) s)"
proof -
  let ?st = "stage_name s"
  have ne: "s \<noteq> ?st" by (simp add: stage_name_def)
  obtain r2 w2 where 2: "io_step ''create stage'' (remove_dir ?st w) = (r2, w2)" by fastforce
  note w2 = io_step_frame [OF 2]
  have o2: "cur w2 = cur w" "ledger w2 = ledger w" "bt_wf (dirs w2)"
      "\<And>t. t \<noteq> ?st \<Longrightarrow> bt_get (dirs w2) t = bt_get (dirs w) t"
    using wf by (simp_all add: w2 remove_dir_other)
  show ?thesis
  proof (cases r2)
    case (Inl e)
    with run 2 s have "r = Inl e" "w' = w2" by (auto simp: build_version_def Let_def)
    with o2 io_step_err [of "''create stage''" "remove_dir ?st w" e w2] 2 Inl ne show ?thesis
      by (auto simp: early_error_def)
  next
    case (Inr u)
    obtain err fs where p: "produce sp commit = (err, fs)" by fastforce
    let ?files = "stage_files w2 ?st @ fs"
    let ?w3 = "w2\<lparr>dirs := bt_insert ?st ?files (dirs w2)\<rparr>"
    have o3: "bt_wf (dirs ?w3)" "\<And>t. t \<noteq> ?st \<Longrightarrow> bt_get (dirs ?w3) t = bt_get (dirs w) t"
        "bt_get (dirs ?w3) ?st = Some ?files"
      using o2 by (simp_all add: bt_simps)
    have run3: "(r, w') = (case err of
          Some e \<Rightarrow> (Inl (Produce_failed e), remove_dir ?st ?w3)
        | None \<Rightarrow> if \<not> has_bins ?files (out_bins sp)
            then (Inl (Missing_bins (filter (\<lambda>b. b \<notin> set ?files) (out_bins sp))), remove_dir ?st ?w3)
            else rename_stage s (remove_dir s ?w3))"
      using run 2 Inr p by (auto simp: build_version_def Let_def s [symmetric])
    show ?thesis
    proof (cases "err = None \<and> has_bins ?files (out_bins sp)")
      case True
      with run3 have rn: "rename_stage s (remove_dir s ?w3) = (r, w')" by simp
      from rename_stage_frame [OF rn] o3 o2 ne
      have "bt_get (dirs (remove_dir s ?w3)) ?st = Some ?files"
        by (simp add: remove_dir_other)
      moreover have "early_error e \<Longrightarrow> r \<noteq> Inl e" for e
        using rn by (auto simp: rename_stage_def early_error_def dest!: io_step_err
            split: prod.splits sum.splits option.splits list.splits)
      ultimately show ?thesis
        using rename_stage_frame [OF rn] o3 o2 ne True
        by (auto simp: complete_def remove_dir_other)
    next
      case False
      with run3 have w': "w' = remove_dir ?st ?w3" and nok: "\<not> is_ok r"
        by (auto split: option.splits if_splits)
      show ?thesis using o3 o2 ne nok by (auto simp: w' remove_dir_other)
    qed
  qed
qed


section \<open>The store without faults\<close>

lemma remove_dirs_free:
  "faults w = [] \<Longrightarrow> bt_wf (dirs w) \<Longrightarrow>
     foldl (\<lambda>w s. remove_dir s w) w ns = w\<lparr>dirs := filter (\<lambda>p. fst p \<notin> set ns) (dirs w)\<rparr>"
proof (induction ns arbitrary: w)
  case Nil
  then show ?case by simp
next
  case (Cons n ns)
  then show ?case by (simp add: remove_dir_free bt_wf_filter bt_remove_filter conj_commute)
qed

definition kept_dirs :: "nat \<Rightarrow> bdir \<Rightarrow> (string, string list) btree" where
  "kept_dirs retain w =
     filter (\<lambda>p. version_name (fst p) \<longrightarrow> fst p \<in> keep_set retain w) (dirs w)"

lemma kept_get:
  "bt_wf (dirs w) \<Longrightarrow> bt_get (kept_dirs retain w) t =
     (if version_name t \<longrightarrow> t \<in> keep_set retain w then bt_get (dirs w) t else None)"
  unfolding kept_dirs_def by (rule bt_get_filter)

lemma kept_wf: "bt_wf (dirs w) \<Longrightarrow> bt_wf (kept_dirs retain w)"
  unfolding kept_dirs_def by (rule bt_wf_filter)

lemma gc_free:
  assumes "faults w = []" and "bt_wf (dirs w)"
  shows "gc retain w =
    (Inr (), w\<lparr>dirs := kept_dirs retain w, ledger := filter (\<lambda>s. s \<in> keep_set retain w) (ledger w)\<rparr>)"
proof -
  have "filter (\<lambda>p. fst p \<notin> set (filter (\<lambda>s. s \<notin> keep_set retain w) (installed_slugs w))) (dirs w)
      = kept_dirs retain w"
    unfolding kept_dirs_def installed_slugs_def by (rule filter_cong) auto
  with assms show ?thesis
    by (auto simp: gc_def Let_def remove_dirs_free ledger_save_def and_then_def pure_step_def)
qed

lemma flip_current_free: "faults w = [] \<Longrightarrow> flip_current s w = (Inr (), w\<lparr>cur := Some s\<rparr>)"
  by (simp add: flip_current_def and_then_def pure_step_def)

lemma ledger_touch_free:
  "faults w = [] \<Longrightarrow>
     ledger_touch s w = (Inr (), w\<lparr>ledger := filter (\<lambda>x. x \<noteq> s) (ledger w) @ [s]\<rparr>)"
  by (simp add: ledger_touch_def ledger_save_def and_then_def pure_step_def)

definition activated :: "string \<Rightarrow> bdir \<Rightarrow> bdir" where
  "activated s w = w\<lparr>cur := Some s, ledger := filter (\<lambda>x. x \<noteq> s) (ledger w) @ [s]\<rparr>"

lemma activate_free:
  "faults w = [] \<Longrightarrow> bt_wf (dirs w) \<Longrightarrow> activate retain s w = gc retain (activated s w)"
  by (simp add: activate_def and_then_def flip_current_free ledger_touch_free activated_def)

text \<open>A successful fault-free installation ends in the garbage collection of the activated store.\<close>

lemma build_version_free:
  assumes "build_version produce sp commit w = (Inr (), w')" and "faults w = []" and "bt_wf (dirs w)"
  shows "faults w' = []"
  using assms unfolding build_version_def Let_def rename_stage_def
  by (auto simp: remove_dir_free split: prod.splits sum.splits option.splits list.splits if_splits)

lemma install_free:
  assumes run: "install resolve produce sp retain w = (Inr out, w')"
    and ff: "faults w = []" and wf: "bt_wf (dirs w)"
  obtains (noop) "w' = w" "cur w = Some (o_slug out)" "complete w (o_slug out) (out_bins sp)"
      "o_action out = Already_current" "o_previous out = cur w"
      "resolve sp = Inr (o_commit out)" "o_slug out = slug (o_commit out)"
  | (active) w1 where "faults w1 = []" "bt_wf (dirs w1)" "gc retain (activated (o_slug out) w1) = (Inr (), w')"
      "complete w1 (o_slug out) (out_bins sp)" "cur w1 = cur w" "ledger w1 = ledger w" "locked w1 = False"
      "\<And>t. t \<noteq> o_slug out \<Longrightarrow> t \<noteq> stage_name (o_slug out) \<Longrightarrow> bt_get (dirs w1) t = bt_get (dirs w) t"
      "o_previous out = cur w" "o_action out \<noteq> Already_current"
      "resolve sp = Inr (o_commit out)" "o_slug out = slug (o_commit out)"
proof -
  from run obtain commit where c: "resolve sp = Inr commit" and nl: "\<not> locked w" "trim commit \<noteq> []"
    by (auto simp: install_def split: sum.splits if_splits)
  let ?s = "slug commit"
  show thesis
  proof (cases "complete w ?s (out_bins sp)")
    case True
    with run c nl ff wf show thesis
      by (cases "cur w = Some ?s")
        (auto simp: install_def mk_outcome_def activate_free Let_def
          split: prod.splits sum.splits intro: noop active [of w])
  next
    case False
    then obtain w2 where b: "build_version produce sp commit w = (Inr (), w2)"
      and a: "activate retain ?s w2 = (Inr (), w')"
      and out: "out = mk_outcome commit Built (cur w) (has_rpc w2 ?s)"
      using run c nl ff by (auto simp: install_def Let_def split: prod.splits sum.splits)
    note f = build_version_frame [OF b wf refl] and f2 = build_version_free [OF b ff wf]
    have "locked w2 = locked w"
      using b unfolding build_version_def Let_def rename_stage_def
      by (auto split: prod.splits sum.splits option.splits list.splits if_splits dest!: io_step_frame)
    with active [of w2] f f2 a c nl out show thesis
      by (simp add: activate_free mk_outcome_def)
  qed
qed


lemma ledger_save_err: "ledger_save l w = (Inl e, w') \<Longrightarrow> e = Io_failed ''ledger''"
  by (auto simp: ledger_save_def pure_step_def elim!: and_then_ErrE dest: io_step_err)

lemma flip_current_err: "flip_current s w = (Inl e, w') \<Longrightarrow> \<not> early_error e"
  by (auto simp: flip_current_def pure_step_def early_error_def elim!: and_then_ErrE dest!: io_step_err)

lemma activate_err:
  assumes "activate retain s w = (Inl e, w')"
  shows "\<not> early_error e"
  using assms unfolding activate_def
proof (elim and_then_ErrE)
  show "flip_current s w = (Inl e, w') \<Longrightarrow> \<not> early_error e" by (rule flip_current_err)
next
  fix w1 assume "ledger_touch s w1 = (Inl e, w')"
  then have "e = Io_failed ''ledger''" unfolding ledger_touch_def by (rule ledger_save_err)
  then show "\<not> early_error e" by (simp add: early_error_def)
next
  fix w2 assume "gc retain w2 = (Inl e, w')"
  then have "e = Io_failed ''ledger''"
    unfolding gc_def Let_def by (auto split: if_splits dest: ledger_save_err)
  then show "\<not> early_error e" by (simp add: early_error_def)
qed

lemma installed_mem: "t \<in> set (installed_slugs w) \<longleftrightarrow> version_name t \<and> bt_get (dirs w) t \<noteq> None"
  by (simp add: installed_slugs_def bt_mem_keys conj_commute)

lemma installed_upd [simp]:
  "installed_slugs (w\<lparr>faults := x\<rparr>) = installed_slugs w"
  "installed_slugs (w\<lparr>cur := c\<rparr>) = installed_slugs w"
  "installed_slugs (w\<lparr>ledger := l\<rparr>) = installed_slugs w"
  by (simp_all add: installed_slugs_def)

lemma installed_kept:
  "installed_slugs (w\<lparr>dirs := kept_dirs retain w\<rparr>) =
     filter (\<lambda>s. s \<in> keep_set retain w) (installed_slugs w)"
  by (auto simp: installed_slugs_def kept_dirs_def filter_map comp_def
      intro!: arg_cong [where f = "map fst"] filter_cong)

lemma installed_sorted: "bt_wf (dirs w) \<Longrightarrow> sorted_wrt (<) (installed_slugs w)"
  unfolding bt_wf_def installed_slugs_def by (rule sorted_wrt_filter)

lemma installed_eq:
  assumes "bt_wf (dirs w)" and "bt_wf (dirs w')"
    and "\<And>t. version_name t \<Longrightarrow> bt_get (dirs w') t = bt_get (dirs w) t"
  shows "installed_slugs w' = installed_slugs w"
  using installed_sorted [OF assms(1)] installed_sorted [OF assms(2)] assms(3)
  by (intro strict_sorted_equal) (auto simp: installed_mem)

section \<open>Properties\<close>

text \<open>\<open>current\<close> is absent, or names an installed version that holds every binary of the recipe.\<close>

definition current_ok :: "string list \<Rightarrow> bdir \<Rightarrow> bool" where
  "current_ok bins w \<longleftrightarrow>
     bt_wf (dirs w) \<and>
     (case cur w of None \<Rightarrow> True | Some s \<Rightarrow> version_name s \<and> complete w s bins)"

lemma current_ok_frame:
  assumes "current_ok bins w" and "bt_wf (dirs w')" and "cur w' = cur w"
    and "\<And>s. version_name s \<Longrightarrow> complete w s bins \<Longrightarrow> complete w' s bins"
  shows "current_ok bins w'"
  using assms by (auto simp: current_ok_def split: option.splits)

lemma activate_current_ok:
  assumes "activate retain s w = (r, w')" and "current_ok bins w"
    and "version_name s" and "complete w s bins"
  shows "current_ok bins w'" and "is_ok r \<Longrightarrow> cur w' = Some s \<and> complete w' s bins"
  using activate_frame [OF assms(1)] assms(2-4) complete_cong [of w' s w bins]
  by (auto simp: current_ok_def complete_def split: option.splits)

lemma build_version_current_ok:
  assumes b: "build_version produce sp commit w = (r, w')" and ok: "current_ok (out_bins sp) w"
    and n: "\<not> complete w (slug commit) (out_bins sp)"
  shows "current_ok (out_bins sp) w'"
proof -
  have wf: "bt_wf (dirs w)" using ok by (simp add: current_ok_def)
  note f = build_version_frame [OF b wf refl]
  have "complete w' t (out_bins sp)" if "version_name t" and "complete w t (out_bins sp)" for t
  proof -
    have "t \<noteq> slug commit" using n that by blast
    moreover have "t \<noteq> stage_name (slug commit)" using that stage_not_version by blast
    ultimately show ?thesis using f that by (simp add: complete_def)
  qed
  with current_ok_frame [OF ok] f show ?thesis by blast
qed

text \<open>
 C1: Whatever the builder does and whichever file-system calls fail, an installation leaves
  \<open>current\<close> absent or on an installed version that has every binary of the recipe; and when it
  reports success, \<open>current\<close> names the reported version and that version is complete.
\<close>

theorem install_keeps_current_complete:
  assumes run: "install resolve produce sp retain w = (r, w')"
    and ok: "current_ok (out_bins sp) w"
    and vn: "\<forall>c. resolve sp = Inr c \<longrightarrow> version_name (slug c)"
  shows "current_ok (out_bins sp) w' \<and>
    (\<forall>out. r = Inr out \<longrightarrow> cur w' = Some (o_slug out) \<and> complete w' (o_slug out) (out_bins sp))"
proof (cases "locked w \<or> (\<forall>c. resolve sp = Inr c \<longrightarrow> trim c = [])")
  case True
  with run ok show ?thesis by (auto simp: install_def split: sum.splits if_splits)
next
  case False
  then obtain commit where c: "resolve sp = Inr commit" "trim commit \<noteq> []" and nl: "\<not> locked w" by blast
  let ?s = "slug commit"
  obtain r1 w1 where 1: "io_step ''create build dir'' w = (r1, w1)" by fastforce
  have ok1: "current_ok (out_bins sp) w1"
    using current_ok_frame [OF ok, of w1] ok io_step_frame [OF 1] by (simp add: current_ok_def)
  note vs = vn [rule_format, OF c(1)]
  show ?thesis
  proof (cases "is_ok r1 \<and> \<not> complete w1 ?s (out_bins sp)")
    case False
    with run c nl 1 ok1 activate_current_ok [OF _ ok1 vs, of retain] show ?thesis
      by (cases "cur w1 = Some ?s")
        (auto simp: install_def Let_def mk_outcome_def is_ok_def split: prod.splits sum.splits)
  next
    case True
    obtain r2 w2 where 2: "build_version produce sp commit w1 = (r2, w2)" by fastforce
    have ok2: "current_ok (out_bins sp) w2"
      using build_version_current_ok [OF 2 ok1] True by blast
    have co: "is_ok r2 \<Longrightarrow> complete w2 ?s (out_bins sp)"
      using build_version_frame [OF 2 _ refl] ok1 by (simp add: current_ok_def)
    from run c nl 1 2 True ok2 co activate_current_ok [OF _ ok2 vs, of retain] show ?thesis
      by (auto simp: install_def Let_def mk_outcome_def is_ok_def split: prod.splits sum.splits)
  qed
qed


text \<open>A recipe, a builder and a store for the concrete instances below.\<close>

definition demo_spec :: build_spec where
  "demo_spec = \<lparr>bname = ''vk'', git_url = ''https://h/x'', git_ref = ''main'', cmake_flags = [],
     out_bins = [''srv'']\<rparr>"

definition demo_store :: bdir where
  "demo_store = \<lparr>dirs = [(''aaaaaaa'', [''srv'']), (''bbbbbbb'', [''srv''])], cur = Some ''bbbbbbb'',
     ledger = [''aaaaaaa'', ''bbbbbbb''], locked = False, faults = []\<rparr>"

definition demo_resolve :: "build_spec \<Rightarrow> string + string" where
  "demo_resolve s = Inr ''ccccccc''"

definition demo_produce :: "build_spec \<Rightarrow> string \<Rightarrow> string option \<times> string list" where
  "demo_produce s c = (None, [''srv'', ''rpc-server''])"

lemma install_keeps_current_complete_witness:
  "current_ok [''srv''] (snd (install demo_resolve demo_produce demo_spec 2
      (demo_store\<lparr>faults := [Io_ok, Io_ok, Io_ok, Io_ok, Io_ok, Io_ok, Io_ok, Io_fail 0]\<rparr>)))"
proof -
  let ?w = "demo_store\<lparr>faults := [Io_ok, Io_ok, Io_ok, Io_ok, Io_ok, Io_ok, Io_ok, Io_fail 0]\<rparr>"
  have b: "out_bins demo_spec = [''srv'']" by (simp add: demo_spec_def)
  have ok: "current_ok (out_bins demo_spec) ?w" by code_simp
  have vn: "\<forall>c. demo_resolve demo_spec = Inr c \<longrightarrow> version_name (slug c)"
    by (simp add: demo_resolve_def) code_simp
  obtain r w' where run: "install demo_resolve demo_produce demo_spec 2 ?w = (r, w')" by fastforce
  from install_keeps_current_complete [OF run ok vn] run show ?thesis by (simp add: b)
qed

text \<open>
 C3: A failed build is isolated: an installation that returns an error of resolving, staging,
  compiling or of the check of the binaries leaves \<open>current\<close>, the ledger and every installed version as they were.
\<close>

theorem install_failure_isolated:
  assumes run: "install resolve produce sp retain w = (Inl e, w')"
    and early: "early_error e" and wf: "bt_wf (dirs w)"
    and vn: "\<forall>c. resolve sp = Inr c \<longrightarrow> version_name (slug c)"
  shows "cur w' = cur w \<and> ledger w' = ledger w \<and> installed_slugs w' = installed_slugs w \<and>
    (\<forall>t. version_name t \<longrightarrow> bt_get (dirs w') t = bt_get (dirs w) t)"
proof -
  have "cur w' = cur w \<and> ledger w' = ledger w \<and> bt_wf (dirs w') \<and>
    (\<forall>t. version_name t \<longrightarrow> bt_get (dirs w') t = bt_get (dirs w) t)"
  proof (cases "locked w \<or> (\<forall>c. resolve sp = Inr c \<longrightarrow> trim c = [])")
    case True
    with run wf show ?thesis by (auto simp: install_def split: sum.splits if_splits)
  next
    case False
    then obtain commit where c: "resolve sp = Inr commit" "trim commit \<noteq> []" and nl: "\<not> locked w" by blast
    obtain r1 w1 where 1: "io_step ''create build dir'' w = (r1, w1)" by fastforce
    note w1 = io_step_frame [OF 1]
    obtain r2 w2 where 2: "build_version produce sp commit w1 = (r2, w2)" by fastforce
    have wf1: "bt_wf (dirs w1)" using wf by (simp add: w1)
    note f = build_version_frame [OF 2 wf1 refl]
    have st: "version_name t \<Longrightarrow> t \<noteq> stage_name (slug commit)" for t
      using stage_not_version by blast
    from run c nl 1 2 early have "w' = w1 \<or> (r2 = Inl e \<and> w' = w2)"
      by (auto simp: install_def Let_def split: prod.splits sum.splits if_splits dest: activate_err)
    then show ?thesis
    proof
      assume "w' = w1"
      with wf show ?thesis by (simp add: w1)
    next
      assume e2: "r2 = Inl e \<and> w' = w2"
      then have "bt_get (dirs w2) t = bt_get (dirs w1) t" if "version_name t" for t
        using f early st [OF that] by (cases "t = slug commit") auto
      with e2 f show ?thesis by (simp add: w1)
    qed
  qed
  with installed_eq [OF wf] show ?thesis by blast
qed


lemma install_failure_isolated_witness:
  "cur (snd (install demo_resolve (\<lambda>_ _. (Some ''cmake'', [''srv''])) demo_spec 2 demo_store)) = Some ''bbbbbbb''"
proof -
  let ?p = "\<lambda>_ _. (Some ''cmake'', [''srv''])"
  have "fst (install demo_resolve ?p demo_spec 2 demo_store) = Inl (Produce_failed ''cmake'')"
    by code_simp
  then obtain w' where run: "install demo_resolve ?p demo_spec 2 demo_store = (Inl (Produce_failed ''cmake''), w')"
    by (metis prod.collapse)
  have vn: "\<forall>c. demo_resolve demo_spec = Inr c \<longrightarrow> version_name (slug c)"
    by (simp add: demo_resolve_def) code_simp
  have wf: "bt_wf (dirs demo_store)" by code_simp
  from install_failure_isolated [OF run _ wf vn] run show ?thesis
    by (simp add: early_error_def demo_store_def)
qed

subsection \<open>Garbage collection and rollback\<close>

text \<open>
 C4: Garbage collection never touches the current version or one of the \<open>retain\<close> newest installed
  versions of the ledger, whatever fails; and when nothing fails exactly those versions are left.
\<close>

theorem gc_keeps_current_and_newest:
  assumes run: "gc retain w = (r, w')" and wf: "bt_wf (dirs w)"
  shows "cur w' = cur w \<and>
    (\<forall>s. cur w = Some s \<or>
         s \<in> set (take (max retain 1) (filter (\<lambda>s. s \<in> set (installed_slugs w)) (rev (ledger w)))) \<longrightarrow>
         bt_get (dirs w') s = bt_get (dirs w) s) \<and>
    (faults w = [] \<longrightarrow>
       r = Inr () \<and> installed_slugs w' = filter (\<lambda>s. s \<in> keep_set retain w) (installed_slugs w))"
proof -
  have "installed_slugs w' = filter (\<lambda>s. s \<in> keep_set retain w) (installed_slugs w)" if "faults w = []"
    using gc_free [OF that wf] run
    by (auto simp: installed_kept)
  then show ?thesis
    using gc_frame [OF run] gc_free [OF _ wf] run wf by (auto simp: keep_set_def)
qed

lemma gc_keeps_current_and_newest_witness:
  "cur (snd (gc 1 demo_store)) = Some ''bbbbbbb''"
proof -
  obtain r w' where run: "gc 1 demo_store = (r, w')" by fastforce
  have "bt_wf (dirs demo_store)" by code_simp
  from gc_keeps_current_and_newest [OF run this] run show ?thesis by (simp add: demo_store_def)
qed

text \<open>After the collection of an activated version at most \<open>retain\<close> versions are installed.\<close>

lemma active_gc_bound:
  assumes g: "gc retain (activated s w) = (Inr (), w')" and ff: "faults w = []" and wf: "bt_wf (dirs w)"
    and s: "s \<in> set (installed_slugs w)"
  shows "length (installed_slugs w') \<le> max retain 1" and "s \<in> set (installed_slugs w')"
proof -
  let ?a = "activated s w"
  have ia: "installed_slugs ?a = installed_slugs w" by (simp add: activated_def)
  have da: "dirs ?a = dirs w" by (simp add: activated_def)
  have w': "w' = ?a\<lparr>dirs := kept_dirs retain ?a, ledger := filter (\<lambda>s. s \<in> keep_set retain ?a) (ledger ?a)\<rparr>"
    using gc_free [of ?a retain] g ff wf by (simp add: activated_def)
  define new where "new = take (max retain 1) (filter (\<lambda>s. s \<in> set (installed_slugs w)) (rev (ledger ?a)))"
  have new: "s \<in> set new" using s
    by (cases "max retain 1") (auto simp: new_def activated_def)
  have keep: "keep_set retain ?a = set new"
    using new unfolding keep_set_def ia new_def by (auto simp: activated_def)
  have sub: "set (installed_slugs w') \<subseteq> set new"
    by (auto simp: w' installed_slugs_def kept_dirs_def keep)
  have "bt_wf (dirs w')" using wf by (simp add: w' kept_dirs_def bt_wf_filter activated_def)
  then have "distinct (installed_slugs w')"
    using installed_sorted strict_sorted_iff by blast
  then have "length (installed_slugs w') = card (set (installed_slugs w'))" by (simp add: distinct_card)
  also have "\<dots> \<le> card (set new)" using sub by (simp add: card_mono)
  also have "\<dots> \<le> length new" by (rule card_length)
  also have "\<dots> \<le> max retain 1" by (simp add: new_def)
  finally show "length (installed_slugs w') \<le> max retain 1" .
  show "s \<in> set (installed_slugs w')"
    using s new wf by (simp add: w' installed_mem kept_get keep da)
qed

text \<open>
 C5: An installation that activates a version and meets no fault leaves at most \<open>retain\<close>
  versions installed, the new one included: \<open>retain - 1\<close> prior versions to roll back to, and with
  \<open>retain = 1\<close> a rollback right after it finds none.
\<close>

theorem install_retain_bound:
  assumes run: "install resolve produce sp retain w = (Inr out, w')"
    and act: "o_action out \<noteq> Already_current" and ff: "faults w = []" and wf: "bt_wf (dirs w)"
    and vn: "version_name (o_slug out)"
  shows "length (filter (\<lambda>s. s \<noteq> o_slug out) (installed_slugs w')) \<le> max retain 1 - 1 \<and>
    (retain \<le> 1 \<longrightarrow> fst (rollback_build w') = Inl No_prior_version)"
proof -
  let ?s = "o_slug out"
  from install_free [OF run ff wf] act obtain w1 where
    1: "faults w1 = []" "bt_wf (dirs w1)" "gc retain (activated ?s w1) = (Inr (), w')"
    and co: "complete w1 ?s (out_bins sp)" and nl: "locked w1 = False" by metis
  have s: "?s \<in> set (installed_slugs w1)"
    using co vn by (auto simp: installed_mem complete_def split: option.splits)
  note b = active_gc_bound [OF 1(3,1,2) s]
  have "length (filter (\<lambda>s. s \<noteq> ?s) (installed_slugs w')) < length (installed_slugs w')"
    using b(2) by (rule length_filter_less) simp
  then have l: "length (filter (\<lambda>s. s \<noteq> ?s) (installed_slugs w')) \<le> max retain 1 - 1"
    using b(1) by linarith
  have cl: "cur w' = Some ?s" "locked w' = False"
    using gc_frame(1,2) [OF 1(3)] nl by (simp_all add: activated_def)
  have "rollback_target w' = None" if "retain \<le> 1"
  proof -
    from that l have "filter (\<lambda>s. s \<noteq> ?s) (installed_slugs w') = []" by simp
    then have "\<forall>t \<in> set (installed_slugs w'). t = ?s" by (simp add: filter_empty_conv)
    then show ?thesis
      by (auto simp: rollback_target_def Let_def cl find_None_iff split: option.splits dest!: find_Some_set)
  qed
  with l cl show ?thesis by (simp add: rollback_build_def)
qed


lemma install_retain_bound_witness:
  "fst (rollback_build (snd (install demo_resolve demo_produce demo_spec 1 demo_store))) = Inl No_prior_version"
proof -
  let ?i = "install demo_resolve demo_produce demo_spec 1 demo_store"
  have out: "fst ?i = Inr (mk_outcome ''ccccccc'' Built (Some ''bbbbbbb'') True)" by code_simp
  then have run: "?i = (Inr (mk_outcome ''ccccccc'' Built (Some ''bbbbbbb'') True), snd ?i)"
    by (metis prod.collapse)
  have "faults demo_store = []" "bt_wf (dirs demo_store)"
    "o_action (mk_outcome ''ccccccc'' Built (Some ''bbbbbbb'') True) \<noteq> Already_current"
    "version_name (o_slug (mk_outcome ''ccccccc'' Built (Some ''bbbbbbb'') True))" by code_simp+
  from install_retain_bound [OF run this(3,1,2,4)] show ?thesis by simp
qed



text \<open>
  A rollback, whatever fails, never selects the version that is already current: it goes to the
  newest other installed version of the ledger, to some other installed version when the ledger has
  none, and reports that there is none exactly when no other version is installed.
\<close>

theorem rollback_selects_other:
  assumes "rollback_build w = (r, w')" and "\<not> locked w"
  shows "dirs w' = dirs w \<and> ledger w' = ledger w \<and>
    (r = Inl No_prior_version \<longleftrightarrow> (\<forall>s \<in> set (installed_slugs w). Some s = cur w)) \<and>
    (\<forall>from to. r = Inr (from, to) \<longrightarrow>
       from = cur w \<and> cur w' = Some to \<and> Some to \<noteq> cur w \<and> to \<in> set (installed_slugs w) \<and>
       (\<forall>newer older s. ledger w = older @ s # newer \<longrightarrow> Some s \<noteq> cur w \<longrightarrow>
          s \<in> set (installed_slugs w) \<longrightarrow> to = s \<or> to \<in> set newer))"
proof (cases "rollback_target w")
  case None
  then have "\<forall>s \<in> set (installed_slugs w). Some s = cur w"
    by (auto simp: rollback_target_def Let_def find_None_iff split: option.splits)
  with None assms show ?thesis by (auto simp: rollback_build_def)
next
  case (Some t)
  let ?P = "\<lambda>s. Some s \<noteq> cur w \<and> s \<in> set (installed_slugs w)"
  have t: "?P t"
    using Some by (auto simp: rollback_target_def Let_def split: option.splits dest!: find_Some_set)
  obtain r1 w1 where f: "flip_current t w = (r1, w1)" by fastforce
  have newest: "t = s \<or> t \<in> set newer" if "ledger w = older @ s # newer" and "?P s" for older s newer
  proof -
    have "find ?P (rev newer @ s # rev older) = Some t"
      using Some that
      by (auto simp: rollback_target_def Let_def find_None_iff simp del: find.simps split: option.splits)
    then show ?thesis
      using that(2) by (auto simp: find_append split: option.splits dest!: find_Some_set)
  qed
  have "r1 = Inl e \<Longrightarrow> e \<noteq> No_prior_version" for e
    using f by (auto simp: flip_current_def pure_step_def elim!: and_then_ErrE dest!: io_step_err)
  with Some assms f flip_current_frame [OF f] t newest show ?thesis
    by (cases r1) (auto simp: rollback_build_def)
qed


lemma rollback_selects_other_witness:
  "fst (rollback_build (demo_store\<lparr>faults := [Io_ok, Io_fail 0]\<rparr>)) \<noteq> Inl No_prior_version"
proof -
  let ?w = "demo_store\<lparr>faults := [Io_ok, Io_fail 0]\<rparr>"
  obtain r w' where run: "rollback_build ?w = (r, w')" by fastforce
  have "\<not> locked ?w" "\<exists>s \<in> set (installed_slugs ?w). Some s \<noteq> cur ?w" by code_simp+
  with rollback_selects_other [OF run this(1)] run show ?thesis by auto
qed

subsection \<open>Recipes and slugs\<close>

definition spec_ok :: "build_spec \<Rightarrow> bool" where
  "spec_ok s \<longleftrightarrow>
     bname s \<noteq> [] \<and> list_all name_char (bname s) \<and> bname s \<noteq> ''current'' \<and> hd (bname s) \<noteq> CHR ''.'' \<and>
     (\<exists>p \<in> set url_schemes. starts_with (git_url s) p) \<and>
     git_ref s \<noteq> [] \<and> hd (git_ref s) \<noteq> CHR ''-'' \<and> out_bins s \<noteq> []"

lemma prefix_single: "prefix [c] s \<longleftrightarrow> s \<noteq> [] \<and> hd s = c"
  by (cases s) auto

lemma scheme_no_dash: "p \<in> set url_schemes \<Longrightarrow> prefix p u \<Longrightarrow> u \<noteq> [] \<and> hd u \<noteq> CHR ''-''"
  by (auto simp: url_schemes_def prefix_def)

lemma validate_from_iff:
  "validate_from seen ss = Inr () \<longleftrightarrow>
     list_all spec_ok ss \<and> distinct (map bname ss) \<and> set (map bname ss) \<inter> set seen = {}"
proof (induction ss arbitrary: seen)
  case Nil
  then show ?case by simp
next
  case (Cons s ss)
  have u: "git_url s \<noteq> [] \<and> \<not> prefix ''-'' (git_url s) \<and> list_ex (prefix' (git_url s)) url_schemes \<longleftrightarrow>
      (\<exists>p \<in> set url_schemes. prefix p (git_url s))"
    if "prefix' = (\<lambda>u p. prefix p u)" for prefix'
    using scheme_no_dash by (auto simp: list_ex_iff prefix_single that)
  have "validate_from seen (s # ss) = Inr () \<longleftrightarrow>
      spec_ok s \<and> bname s \<notin> set seen \<and> validate_from (bname s # seen) ss = Inr ()"
    using u [OF refl] by (auto simp: spec_ok_def prefix_single split: if_splits)
  with Cons show ?case by auto
qed

text \<open>
 C6: Recipe validation accepts a recipe file exactly when its names are pairwise distinct and each
  recipe has a file-system-safe, unreserved name, a url of a known transport, a non-empty ref that
  git cannot read as an option, and at least one binary.
\<close>

theorem validate_specs_iff:
  "validate_specs ss = Inr () \<longleftrightarrow> list_all spec_ok ss \<and> distinct (map bname ss)"
  by (simp add: validate_specs_def validate_from_iff)

lemma name_char_slug: "name_char (slug_char c)"
  by (simp add: slug_char_def name_char_def)

lemma code_lower: "code (lower_char c) = (if 65 \<le> code c \<and> code c \<le> 90 then code c + 32 else code c)"
  by (simp add: lower_char_def)

lemma hexdigit_lower:
  assumes "is_hexdigit c"
  shows "is_hexdigit (lower_char c) \<and> name_char (lower_char c) \<and> lower_char c \<noteq> CHR ''.'' \<and> \<not> is_ws c"
proof -
  have h: "is_hexdigit (lower_char c)"
    using assms unfolding is_hexdigit_def is_digit_def code_lower by (simp split: if_split) linarith
  then have "is_alnum (lower_char c)" and n: "code (lower_char c) \<noteq> 46"
    unfolding is_hexdigit_def is_alnum_def is_digit_def by linarith+
  moreover have "lower_char c \<noteq> CHR ''.''" using n by auto
  moreover have "\<not> is_ws c" using assms unfolding is_hexdigit_def is_digit_def is_ws_def by linarith
  ultimately show ?thesis using h by (simp add: name_char_def)
qed

lemma slug_hex:
  assumes "is_hex (trim c)" and "7 \<le> length (trim c)"
  shows "slug c = lower (take 12 (trim c))"
  using assms by (simp add: slug_def Let_def min_def)

lemma set_take_P: "list_all P xs \<Longrightarrow> list_all P (take n xs)"
  by (auto simp: list_all_iff dest: in_set_takeD)

lemma slug_hex_version:
  assumes "is_hex (trim c)" and "7 \<le> length (trim c)"
  shows "version_name (slug c)"
proof -
  have "list_all is_hexdigit (take 12 (trim c))" using assms by (simp add: is_hex_def set_take_P)
  then have h: "list_all (\<lambda>c. is_hexdigit c \<and> c \<noteq> CHR ''.'') (slug c)"
    unfolding slug_hex [OF assms] lower_def list_all_iff using hexdigit_lower by fastforce
  have "\<not> list_all (\<lambda>c. is_hexdigit c \<and> c \<noteq> CHR ''.'') ''current''" by code_simp
  with h have "slug c \<noteq> ''current''" by metis
  moreover have "\<not> prefix ''.'' (slug c)" using h by (cases "slug c") auto
  ultimately show ?thesis by (simp add: version_name_def)
qed

text \<open>
  A version directory name is file-system safe and at most 24 characters, never empty for a
  commit that is not blank; for a commit hash it is a legal version name, its first twelve digits in
  lower case, and so does not change when the abbreviated or upper-case hash is slugged again.
\<close>

theorem slug_safe:
  "list_all name_char (slug c) \<and> length (slug c) \<le> 24 \<and> (trim c \<noteq> [] \<longrightarrow> slug c \<noteq> []) \<and>
   (is_hex (trim c) \<and> 7 \<le> length (trim c) \<longrightarrow>
      version_name (slug c) \<and> length (slug c) \<le> 12 \<and> prefix (slug c) (lower (trim c)) \<and>
      slug (slug c) = slug c)"
proof (cases "is_hex (trim c) \<and> 7 \<le> length (trim c)")
  case False
  then have "slug c = take 24 (map slug_char (trim c))" by (auto simp: slug_def Let_def)
  then show ?thesis using False
    by (auto simp: list_all_iff name_char_slug dest!: in_set_takeD)
next
  case True
  then have e: "slug c = lower (take 12 (trim c))" by (simp add: slug_hex)
  have h: "list_all is_hexdigit (take 12 (trim c))" using True by (simp add: is_hex_def set_take_P)
  then have hs: "list_all is_hexdigit (slug c)" and n: "list_all name_char (slug c)"
    using hexdigit_lower by (auto simp: e lower_def list_all_iff)
  have l: "length (slug c) \<le> 12" "7 \<le> length (slug c)" using True by (simp_all add: e lower_def)
  have "\<forall>x \<in> set (slug c). \<not> is_ws x" using hs hexdigit_lower by (auto simp: list_all_iff)
  then have t: "trim (slug c) = slug c"
    by (simp add: trim_def trim_start_def trim_end_def dropWhile_eq_self_iff)
      (metis dropWhile_eq_self_iff hd_in_set rev_rev_ident set_rev)
  have idem: "lower_char (lower_char x) = lower_char x" for x
    by (simp add: lower_char_def)
  have "slug (slug c) = lower (take 12 (slug c))"
    using hs l t by (intro slug_hex [of "slug c", unfolded t]) (auto simp: is_hex_def t)
  also have "\<dots> = slug c" using l(1) by (simp add: e lower_def idem)
  finally have i: "slug (slug c) = slug c" .
  have "prefix (slug c) (lower (trim c))"
    by (simp add: e lower_def take_map [symmetric] take_is_prefix)
  then show ?thesis using True n l i slug_hex_version [of c] by auto
qed

lemma slug_safe_witness: "version_name (slug ''DEADBEEF99'')"
proof -
  have "is_hex (trim ''DEADBEEF99'') \<and> 7 \<le> length (trim ''DEADBEEF99'')" by code_simp
  with slug_safe [of "''DEADBEEF99''"] show ?thesis by blast
qed

end
