(* ===== verification/Toolchain.thy ===== *)
theory Toolchain
  imports Build
begin

text \<open>
  The production side of the build manager (src/src/build.rs): the preflight of the tool chain, the
  number of compile jobs, the commands of \<open>RealBuilder::produce\<close> in their order, the copy of the
  build output, and the status listing. What the host offers is a record of lookups
  (\<open>host\<close>); commands run through a runner that is a parameter and may change the world it
  threads.
\<close>

section \<open>The host and the preflight\<close>

record host =
  on_path :: "string \<Rightarrow> bool"
  exists :: "string \<Rightarrow> bool"
  os_release :: "string option"
  meminfo :: "string option"
  env_jobs :: "string option"
  cpu_count :: "nat option"

fun drop_quotes :: "string \<Rightarrow> string" where
  "drop_quotes s = dropWhile (\<lambda>c. c = CHR 0x22) s"

definition trim_quotes :: "string \<Rightarrow> string" where
  "trim_quotes s = rev (drop_quotes (rev (drop_quotes s)))"

definition distro_id :: "host \<Rightarrow> string" where
  "distro_id h =
     (case os_release h of
        None \<Rightarrow> []
      | Some t \<Rightarrow>
          (case find_map (\<lambda>l. map_option trim_quotes (strip_prefix l ''ID='')) (lines t) of
             None \<Rightarrow> [] | Some d \<Rightarrow> d))"

definition install_cmd :: "host \<Rightarrow> string" where
  "install_cmd h =
     (let d = distro_id h in
      if d \<in> set [''arch'', ''cachyos'', ''endeavouros'', ''manjaro'', ''garuda'', ''artix'']
      then ''install: sudo pacman -S --needed base-devel cmake git vulkan-headers vulkan-icd-loader spirv-headers shaderc''
      else if d \<in> set [''debian'', ''ubuntu'', ''pop'', ''linuxmint'', ''raspbian'']
      then ''install: sudo apt install build-essential cmake git libvulkan-dev glslc spirv-headers''
      else if d \<in> set [''fedora'', ''rhel'', ''centos'', ''rocky'', ''almalinux'']
      then ''install: sudo dnf install gcc-c++ cmake git vulkan-headers vulkan-loader-devel glslc spirv-headers''
      else ''install the Vulkan build toolchain for your distro: a C++ compiler, cmake, git, Vulkan headers + ICD loader, SPIR-V headers, and a shader compiler (glslc/shaderc)'')"

definition any_path_exists :: "host \<Rightarrow> string list \<Rightarrow> bool" where
  "any_path_exists h ps = list_ex (exists h) ps"

definition missing_deps :: "host \<Rightarrow> string list" where
  "missing_deps h =
     (if on_path h ''git'' then [] else [''git'']) @
     (if on_path h ''cmake'' then [] else [''cmake'']) @
     (if list_ex (on_path h) [''c++'', ''g++'', ''clang++''] then [] else [''a C++ compiler (g++/clang++)'']) @
     (if list_ex (on_path h) [''glslc'', ''glslangValidator''] then []
      else [''glslc/glslangValidator (shaderc)'']) @
     (if exists h ''/usr/include/vulkan/vulkan.h'' then [] else [''Vulkan headers (vulkan/vulkan.h)'']) @
     (if any_path_exists h [''/usr/lib/libvulkan.so'', ''/usr/lib64/libvulkan.so'',
           ''/usr/lib/x86_64-linux-gnu/libvulkan.so'', ''/usr/lib/aarch64-linux-gnu/libvulkan.so'']
      then [] else [''Vulkan ICD loader (libvulkan.so / vulkan-icd-loader)'']) @
     (if any_path_exists h [''/usr/include/spirv/unified1/spirv.h'', ''/usr/include/spirv/spirv.h'',
           ''/usr/include/spirv'']
      then [] else [''SPIR-V headers (spirv/, spirv-headers)''])"

record dep_report =
  missing :: "string list"
  hint :: string

definition check_build_deps :: "host \<Rightarrow> dep_report" where
  "check_build_deps h = \<lparr>missing = missing_deps h, hint = install_cmd h\<rparr>"

datatype tool_error =
    Toolchain_incomplete "string list" string
  | Command_failed string
  | No_output_dir
  | Nothing_built

definition ensure_deps :: "dep_report \<Rightarrow> tool_error + unit" where
  "ensure_deps r = (if missing r = [] then Inr () else Inl (Toolchain_incomplete (missing r) (hint r)))"

section \<open>Compile jobs\<close>

definition mem_total_gib :: "host \<Rightarrow> nat" where
  "mem_total_gib h =
     (case meminfo h of
        None \<Rightarrow> 0
      | Some t \<Rightarrow>
          (case find_map (\<lambda>l. case strip_prefix l ''MemTotal:'' of
                 None \<Rightarrow> None
               | Some v \<Rightarrow> (case split_ws v of [] \<Rightarrow> None | kb # _ \<Rightarrow> parse_uint max_u64 kb)) (lines t) of
             None \<Rightarrow> 0
           | Some kb \<Rightarrow> kb div (1024 * 1024)))"

definition env_override :: "host \<Rightarrow> nat option" where
  "env_override h =
     (case env_jobs h of
        None \<Rightarrow> None
      | Some v \<Rightarrow>
          (case parse_uint max_u64 (trim v) of
             None \<Rightarrow> None | Some n \<Rightarrow> if 1 \<le> n then Some n else None))"

definition cpus :: "host \<Rightarrow> nat" where
  "cpus h = (case cpu_count h of None \<Rightarrow> 1 | Some n \<Rightarrow> n)"

definition build_jobs :: "host \<Rightarrow> nat" where
  "build_jobs h =
     (case env_override h of
        Some n \<Rightarrow> n
      | None \<Rightarrow>
          let by_mem = max (mem_total_gib h div 3) 1;
              by_mem = (if mem_total_gib h = 0 then cpus h else by_mem)
          in max (min (cpus h) by_mem) 1)"

section \<open>The commands of a build\<close>

definition source_dir :: "string \<Rightarrow> string \<Rightarrow> string" where
  "source_dir root n = path_join (path_join root ''src'') n"

definition fetch_cmds :: "bool \<Rightarrow> string \<Rightarrow> build_spec \<Rightarrow> string list list" where
  "fetch_cmds has_git src sp =
     (if has_git then [[''git'', ''-C'', src, ''fetch'', ''--all'', ''--tags'', ''--prune'']]
      else [[''git'', ''clone'', ''--filter=blob:none'', git_url sp, src]])"

definition compile_cmds :: "string \<Rightarrow> build_spec \<Rightarrow> string \<Rightarrow> nat \<Rightarrow> string list list" where
  "compile_cmds src sp commit jobs =
     (let build_dir = path_join src ''build'' in
      [[''git'', ''-C'', src, ''checkout'', ''--force'', ''--detach'', commit],
       [''cmake'', ''-S'', src, ''-B'', build_dir] @ split_ws (cmake_flags sp),
       [''cmake'', ''--build'', build_dir, ''-j'', show_nat jobs]])"

definition plan :: "bool \<Rightarrow> string \<Rightarrow> build_spec \<Rightarrow> string \<Rightarrow> nat \<Rightarrow> string list list" where
  "plan has_git src sp commit jobs = fetch_cmds has_git src sp @ compile_cmds src sp commit jobs"

fun run_all :: "('c \<Rightarrow> ('e, 'w) step) \<Rightarrow> 'c list \<Rightarrow> ('e, 'w) step" where
  "run_all run [] w = (Inr (), w)"
| "run_all run (c # cs) w = and_then (run c) (run_all run cs) w"

text \<open>\<open>copy_dir_files\<close>: directories and unreadable entries are skipped, a failed copy is not counted.\<close>

datatype entry_kind = Unreadable | Is_dir | Is_file

type_synonym entry = "string \<times> entry_kind \<times> bool"

definition copied_names :: "entry list \<Rightarrow> string list" where
  "copied_names es = map fst (filter (\<lambda>(n, k, ok). k = Is_file \<and> ok) es)"

definition copy_dir_files :: "entry list option \<Rightarrow> tool_error + string list" where
  "copy_dir_files listing =
     (case listing of
        None \<Rightarrow> Inl No_output_dir
      | Some es \<Rightarrow> if copied_names es = [] then Inl Nothing_built else Inr (copied_names es))"

definition real_produce :: "host \<Rightarrow> (string list \<Rightarrow> (tool_error, 'w) step) \<Rightarrow> ('w \<Rightarrow> string \<Rightarrow> entry list option)
    \<Rightarrow> string \<Rightarrow> build_spec \<Rightarrow> string \<Rightarrow> 'w \<Rightarrow> (tool_error + string list) \<times> 'w" where
  "real_produce h run listing root sp commit w =
     (case ensure_deps (check_build_deps h) of
        Inl e \<Rightarrow> (Inl e, w)
      | Inr _ \<Rightarrow>
          (let src = source_dir root (bname sp) in
           case run_all run (plan (exists h (path_join src ''.git'')) src sp commit (build_jobs h)) w of
             (Inl e, w') \<Rightarrow> (Inl e, w')
           | (Inr _, w') \<Rightarrow> (copy_dir_files (listing w' (path_join (path_join src ''build'') ''bin'')), w')))"

definition tail_lines :: "string \<Rightarrow> nat \<Rightarrow> string" where
  "tail_lines s n = (let ls = lines s in join [CHR 0x0A] (drop (length ls - n) ls))"

section \<open>Status listing\<close>

record build_status =
  bs_name :: string
  bs_spec :: "build_spec option"
  bs_current :: "string option"
  bs_versions :: "version list"

fun push_new :: "string list \<Rightarrow> string list \<Rightarrow> string list" where
  "push_new names [] = names"
| "push_new names (n # ns) = push_new (if n \<in> set names then names else names @ [n]) ns"

definition list_builds :: "build_spec list \<Rightarrow> string list \<Rightarrow> (string \<Rightarrow> bdir) \<Rightarrow> build_status list" where
  "list_builds specs on_disk st =
     map (\<lambda>n. \<lparr>bs_name = n, bs_spec = find_spec specs n, bs_current = current_version st n,
              bs_versions = list_versions (st n)\<rparr>)
       (push_new (map bname specs) on_disk)"

section \<open>Properties\<close>

text \<open>A runner that records what it is asked to run and fails on given commands.\<close>

definition recorder :: "(string list \<Rightarrow> bool) \<Rightarrow> string list \<Rightarrow> (tool_error, string list list) step" where
  "recorder bad c log = (if bad c then Inl (Command_failed (hd c)) else Inr (), log @ [c])"

lemma run_all_recorder:
  "run_all (recorder bad) cs log =
     (case find bad cs of
        None \<Rightarrow> (Inr (), log @ cs)
      | Some c \<Rightarrow> (Inl (Command_failed (hd c)), log @ takeWhile (\<lambda>c. \<not> bad c) cs @ [c]))"
  by (induction cs arbitrary: log) (auto simp: and_then_def recorder_def split: option.splits)


text \<open>An argument that git or cmake could read as an option.\<close>

definition option_like :: "string \<Rightarrow> bool" where
  "option_like a \<longleftrightarrow> starts_with a ''-''"

lemma option_like_hd: "option_like a \<longleftrightarrow> a \<noteq> [] \<and> hd a = CHR ''-''"
  by (simp add: option_like_def prefix_single)

lemma is_hex_no_option: "is_hex s \<Longrightarrow> \<not> option_like s"
  by (cases s) (auto simp: is_hex_def option_like_hd is_hexdigit_def is_digit_def)

lemma path_join_absolute: "is_absolute a \<Longrightarrow> is_absolute (path_join a b)"
  by (auto simp: path_join_def is_absolute_def)

lemma absolute_no_option: "is_absolute p \<Longrightarrow> \<not> option_like p"
  by (auto simp: is_absolute_def option_like_hd sep_def)

definition fixed_options :: "string list" where
  "fixed_options = [''-C'', ''--all'', ''--tags'', ''--prune'', ''--filter=blob:none'', ''--force'',
     ''--detach'', ''-S'', ''-B'', ''--build'', ''-j'']"

definition fixed_words :: "string list" where
  "fixed_words = [''git'', ''cmake'', ''fetch'', ''clone'', ''checkout'']"

lemma plan_args:
  assumes "c \<in> set (plan has_git src sp commit jobs)"
  shows "set c \<subseteq> set fixed_options \<union> set fixed_words \<union>
    {git_url sp, commit, src, path_join src ''build'', show_nat jobs} \<union> set (split_ws (cmake_flags sp))"
proof -
  from assms consider "c \<in> set (fetch_cmds has_git src sp)"
    | "c = [''git'', ''-C'', src, ''checkout'', ''--force'', ''--detach'', commit]"
    | "c = [''cmake'', ''-S'', src, ''-B'', path_join src ''build''] @ split_ws (cmake_flags sp)"
    | "c = [''cmake'', ''--build'', path_join src ''build'', ''-j'', show_nat jobs]"
    by (auto simp: plan_def compile_cmds_def Let_def)
  then show ?thesis
  proof cases
    case 1
    then show ?thesis
      by (cases has_git) (simp_all add: fetch_cmds_def fixed_options_def fixed_words_def)
  qed (simp_all add: fixed_options_def fixed_words_def subset_iff)
qed

text \<open>
 C8: For a recipe that passed validation and a commit that is a hash, the url, the commit and the
  directories that the build passes to git and cmake are never read as options: with an absolute
  state directory, every option-like argument of a build command is one of the fixed options of the
  code or comes from the recipe's \<open>cmake_flags\<close>.
\<close>

theorem no_option_injection:
  assumes ok: "validate_specs specs = Inr ()" and mem: "sp \<in> set specs"
    and commit: "is_hex commit" and root: "is_absolute root"
    and c: "c \<in> set (plan has_git (source_dir root (bname sp)) sp commit jobs)"
    and a: "a \<in> set c" and opt: "option_like a"
  shows "a \<in> set fixed_options \<or> a \<in> set (split_ws (cmake_flags sp))"
proof -
  have "spec_ok sp" using ok mem by (simp add: validate_specs_def validate_from_iff list_all_iff)
  then have "\<not> option_like (git_url sp)"
    using scheme_no_dash unfolding spec_ok_def option_like_hd by blast
  moreover have "\<not> option_like (source_dir root (bname sp))"
    "\<not> option_like (path_join (source_dir root (bname sp)) ''build'')"
    using root by (simp_all add: source_dir_def path_join_absolute absolute_no_option)
  moreover have "\<not> option_like (show_nat jobs)"
    using show_nat_digits [of jobs] by (cases "show_nat jobs") (auto simp: option_like_hd is_digit_def)
  moreover have "list_all (\<lambda>w. \<not> option_like w) fixed_words" by code_simp
  ultimately show ?thesis
    using plan_args [OF c] a opt is_hex_no_option [OF commit] unfolding list_all_iff by blast
qed

lemma no_option_injection_witness:
  "''--prune'' \<in> set fixed_options \<or> ''--prune'' \<in> set (split_ws (cmake_flags demo_spec))"
proof (rule no_option_injection [of "[demo_spec]" demo_spec "''abcdef1''" "''/var''"
      "[''git'', ''-C'', source_dir ''/var'' ''vk'', ''fetch'', ''--all'', ''--tags'', ''--prune'']" True 4])
  show "validate_specs [demo_spec] = Inr ()" by code_simp
  show "is_hex ''abcdef1''" by code_simp
  show "is_absolute ''/var''" by code_simp
  show "option_like ''--prune''" by code_simp
  show "[''git'', ''-C'', source_dir ''/var'' ''vk'', ''fetch'', ''--all'', ''--tags'', ''--prune'']
    \<in> set (plan True (source_dir ''/var'' (bname demo_spec)) demo_spec ''abcdef1'' 4)"
    by (simp add: plan_def fetch_cmds_def demo_spec_def)
qed simp_all

text \<open>
  The number of compile jobs is at least one; without a valid override it is at most the number
  of processors, and where the memory is known at most one job per three GiB.
\<close>

theorem build_jobs_bounds:
  "1 \<le> build_jobs h \<and>
   (env_override h = None \<longrightarrow>
      build_jobs h \<le> max (cpus h) 1 \<and>
      (mem_total_gib h \<noteq> 0 \<longrightarrow> build_jobs h = 1 \<or> 3 * build_jobs h \<le> mem_total_gib h))"
proof -
  have "1 \<le> n" if "env_override h = Some n" for n
    using that by (auto simp: env_override_def split: option.splits if_splits)
  moreover have "3 * (m div 3) \<le> m" for m :: nat by simp
  ultimately show ?thesis
    by (auto simp: build_jobs_def Let_def min_def max_def split: option.splits) (meson le_trans mult_le_mono2)?
qed

lemma build_jobs_bounds_witness:
  "build_jobs \<lparr>on_path = (\<lambda>_. True), exists = (\<lambda>_. True), os_release = None,
     meminfo = Some ''MemTotal: 14680064 kB'', env_jobs = None, cpu_count = Some 6\<rparr> \<le> 6"
proof -
  let ?h = "\<lparr>on_path = (\<lambda>_. True), exists = (\<lambda>_. True), os_release = None,
     meminfo = Some ''MemTotal: 14680064 kB'', env_jobs = None, cpu_count = Some 6\<rparr>"
  have "env_override ?h = None" "cpus ?h = 6" by (simp_all add: env_override_def cpus_def)
  with build_jobs_bounds [of ?h] show ?thesis by simp
qed

lemma push_new_set: "set (push_new names ns) = set names \<union> set ns"
  by (induction names ns rule: push_new.induct) auto

lemma push_new_distinct: "distinct names \<Longrightarrow> distinct (push_new names ns)"
  by (induction names ns rule: push_new.induct) auto

lemma list_builds_names:
  "bs_name ` set (list_builds specs on_disk st) = bname ` set specs \<union> set on_disk"
  by (simp add: list_builds_def push_new_set image_image)

end
