(* ===== verification/Profile.thy ===== *)
theory Profile
  imports Toolchain
begin

text \<open>
  Launch profiles (src/src/profile.rs and the \<open>profile\<close> commands of src/src/cmds/profile.rs): the
  validation of a profile set, the resolution of a model to a profile, the binary and library path a
  profile launches from, edits of a profile, and the per-model flag overrides. The lookup of a managed
  build is the interface \<open>build_lookup\<close>, provided by the build manager; reading and writing TOML is
  the toml crate's, a pair of parameters.
\<close>

section \<open>Profiles\<close>

record profile =
  pid :: string
  arch_match :: "string list"
  quant_match :: "string list"
  build_ref :: "string option"
  bin :: string
  ld_path :: "string option"
  penv :: "(string, string) btree"
  flags :: string

datatype profile_error = No_profiles | No_default | Nothing_to_set | No_such_profile string

definition default_id :: string where
  "default_id = ''_default''"

definition validate_profiles :: "profile list \<Rightarrow> profile_error + unit" where
  "validate_profiles ps =
     (if ps = [] then Inl No_profiles
      else if \<not> list_ex (\<lambda>p. pid p = default_id) ps then Inl No_default
      else Inr ())"

definition arch_ok :: "string \<Rightarrow> profile \<Rightarrow> bool" where
  "arch_ok a p \<longleftrightarrow> list_ex (\<lambda>m. starts_with a (lower m)) (arch_match p)"

definition quant_ok :: "string \<Rightarrow> profile \<Rightarrow> bool" where
  "quant_ok q p \<longleftrightarrow> quant_match p = [] \<or> list_ex (\<lambda>m. starts_with q (lower m)) (quant_match p)"

text \<open>The loop over the profiles; its end is the \<open>_default\<close> entry, whose absence is a panic (\<open>None\<close>).\<close>

fun scan_profiles :: "string \<Rightarrow> string \<Rightarrow> profile list \<Rightarrow> profile option" where
  "scan_profiles a q [] = None"
| "scan_profiles a q (p # ps) =
     (if pid p = default_id then scan_profiles a q ps
      else if \<not> arch_ok a p then scan_profiles a q ps
      else if quant_ok q p then Some p
      else scan_profiles a q ps)"

definition resolve_profile :: "profile list \<Rightarrow> string \<Rightarrow> string option \<Rightarrow> (profile \<times> bool) option" where
  "resolve_profile ps arch quant =
     (let a = lower arch; q = lower (case quant of None \<Rightarrow> [] | Some q \<Rightarrow> q) in
      case scan_profiles a q ps of
        Some p \<Rightarrow> Some (p, False)
      | None \<Rightarrow> map_option (\<lambda>p. (p, True)) (find (\<lambda>p. pid p = default_id) ps))"

section \<open>Launching\<close>

definition managed :: "profile \<Rightarrow> string option" where
  "managed p = (case build_ref p of None \<Rightarrow> None | Some b \<Rightarrow> if b = [] then None else Some b)"

definition bin_file :: "profile \<Rightarrow> string" where
  "bin_file p = (case file_name (bin p) of None \<Rightarrow> ''llama-server'' | Some n \<Rightarrow> n)"

definition launch :: "(string \<Rightarrow> string \<Rightarrow> string option) \<Rightarrow> (string \<Rightarrow> string option) \<Rightarrow> profile
    \<Rightarrow> string \<times> string option" where
  "launch find_bin find_dir p =
     (case managed p of
        None \<Rightarrow> (bin p, ld_path p)
      | Some b \<Rightarrow>
          (case find_bin b (bin_file p) of
             Some path \<Rightarrow>
               (path, case find_dir b of Some d \<Rightarrow> Some d | None \<Rightarrow> ld_path p)
           | None \<Rightarrow> (bin_file p, ld_path p)))"

section \<open>Editing a profile\<close>

definition edit_profile :: "string option \<Rightarrow> string option \<Rightarrow> string option \<Rightarrow> profile \<Rightarrow> profile" where
  "edit_profile fl b ld p =
     (let p = (case fl of None \<Rightarrow> p | Some f \<Rightarrow> p\<lparr>flags := f\<rparr>);
          p = (case b of
                 None \<Rightarrow> p
               | Some b \<Rightarrow> (if sep \<in> set b then p\<lparr>build_ref := None\<rparr> else p)\<lparr>bin := b\<rparr>)
      in (case ld of None \<Rightarrow> p | Some l \<Rightarrow> p\<lparr>ld_path := Some l\<rparr>))"

fun update_first :: "('a \<Rightarrow> bool) \<Rightarrow> ('a \<Rightarrow> 'a) \<Rightarrow> 'a list \<Rightarrow> 'a list option" where
  "update_first P f [] = None"
| "update_first P f (x # xs) = (if P x then Some (f x # xs) else map_option (\<lambda>ys. x # ys) (update_first P f xs))"

definition profile_set :: "string \<Rightarrow> string option \<Rightarrow> string option \<Rightarrow> string option \<Rightarrow> profile list
    \<Rightarrow> profile_error + profile list" where
  "profile_set i fl b ld ps =
     (if fl = None \<and> b = None \<and> ld = None then Inl Nothing_to_set
      else case update_first (\<lambda>p. pid p = i) (edit_profile fl b ld) ps of
        None \<Rightarrow> Inl (No_such_profile i)
      | Some ps' \<Rightarrow> Inr ps')"

section \<open>Per-model overrides\<close>

text \<open>
  The overrides file is the document on disk (type \<open>'t\<close>), if any; \<open>parse\<close> and \<open>render\<close> are the toml crate's, \<open>write\<close>
  the atomic save: its error, or the file replaced by the text.
\<close>

type_synonym omap = "(string, string) btree"

definition load_overrides :: "('t \<Rightarrow> omap option) \<Rightarrow> 't option \<Rightarrow> omap" where
  "load_overrides parse file =
     (case file of None \<Rightarrow> [] | Some t \<Rightarrow> (case parse t of None \<Rightarrow> [] | Some m \<Rightarrow> m))"

definition save_overrides :: "(omap \<Rightarrow> 't) \<Rightarrow> bool \<Rightarrow> omap \<Rightarrow> (string, 't option) step" where
  "save_overrides render fails m file =
     (if fails then (Inl ''write'', file) else (Inr (), Some (render m)))"

definition set_override :: "('t \<Rightarrow> omap option) \<Rightarrow> (omap \<Rightarrow> 't) \<Rightarrow> bool \<Rightarrow> string \<Rightarrow> string
    \<Rightarrow> (string, 't option) step" where
  "set_override parse render fails model fl file =
     save_overrides render fails (bt_insert model fl (load_overrides parse file)) file"

definition clear_override :: "('t \<Rightarrow> omap option) \<Rightarrow> (omap \<Rightarrow> 't) \<Rightarrow> bool \<Rightarrow> string
    \<Rightarrow> (string, 't option) step" where
  "clear_override parse render fails model file =
     save_overrides render fails (bt_remove model (load_overrides parse file)) file"

text \<open>\<open>profile set-model\<close>: reset, or set the given flags.\<close>

definition profile_set_model :: "('t \<Rightarrow> omap option) \<Rightarrow> (omap \<Rightarrow> 't) \<Rightarrow> bool \<Rightarrow> string \<Rightarrow> string option
    \<Rightarrow> bool \<Rightarrow> (string, 't option) step" where
  "profile_set_model parse render fails model fl reset file =
     (if reset then clear_override parse render fails model file
      else case fl of
        None \<Rightarrow> (Inl ''pass --flags to set, or --reset to clear'', file)
      | Some f \<Rightarrow> set_override parse render fails model f file)"

section \<open>The interface to the build manager\<close>

text \<open>
  What launching relies on: in a well-formed store, the lookup of a binary by its plain name gives an
  absolute path with that file name, exists only in a build that has a current directory, and that
  directory is absolute.
\<close>

locale build_lookup =
  fixes ok :: "'s \<Rightarrow> bool"
    and look_bin :: "'s \<Rightarrow> string \<Rightarrow> string \<Rightarrow> string option"
    and look_dir :: "'s \<Rightarrow> string \<Rightarrow> string option"
  assumes bin_abs: "ok s \<Longrightarrow> plain_name b \<Longrightarrow> look_bin s n b = Some p \<Longrightarrow> is_absolute p \<and> file_name p = Some b"
    and bin_dir: "look_bin s n b = Some p \<Longrightarrow> \<exists>d. look_dir s n = Some d"
    and dir_abs: "ok s \<Longrightarrow> look_dir s n = Some d \<Longrightarrow> is_absolute d"
begin

lemma bin_file_plain: "plain_name (bin_file p)"
  by (auto simp: bin_file_def plain_name_def sep_def split: option.splits dest!: file_name_no_sep)

lemma launch_managed:
  assumes ok: "ok s" and m: "managed p = Some b" and l: "launch (look_bin s) (look_dir s) p = (exe, ld)"
  shows "file_name exe = Some (bin_file p)"
    and "is_absolute exe \<longleftrightarrow> look_bin s b (bin_file p) \<noteq> None"
    and "look_bin s b (bin_file p) \<noteq> None \<Longrightarrow> ld = look_dir s b \<and> ld \<noteq> None"
    and "look_bin s b (bin_file p) = None \<Longrightarrow> exe = bin_file p \<and> ld = ld_path p"
proof -
  have np: "\<not> is_absolute (bin_file p)"
    using bin_file_plain [of p] by (cases "bin_file p") (auto simp: is_absolute_def plain_name_def)
  have fn: "file_name (bin_file p) = Some (bin_file p)"
    using bin_file_plain [of p] by (rule file_name_plain)
  show "file_name exe = Some (bin_file p)" and "is_absolute exe \<longleftrightarrow> look_bin s b (bin_file p) \<noteq> None"
    and "look_bin s b (bin_file p) \<noteq> None \<Longrightarrow> ld = look_dir s b \<and> ld \<noteq> None"
    and "look_bin s b (bin_file p) = None \<Longrightarrow> exe = bin_file p \<and> ld = ld_path p"
    using l m np fn bin_abs [OF ok bin_file_plain, of b p] bin_dir [of s b "bin_file p"]
    by (auto simp: launch_def split: option.splits)
qed

end


definition store_ok :: "string \<times> (string \<Rightarrow> bdir) \<Rightarrow> bool" where
  "store_ok s = is_absolute (fst s)"

definition store_bin :: "string \<times> (string \<Rightarrow> bdir) \<Rightarrow> string \<Rightarrow> string \<Rightarrow> string option" where
  "store_bin s n b = current_bin (fst s) (snd s) n b"

definition store_dir :: "string \<times> (string \<Rightarrow> bdir) \<Rightarrow> string \<Rightarrow> string option" where
  "store_dir s n = current_dir (fst s) (snd s) n"

lemma plain_not_absolute: "plain_name b \<Longrightarrow> \<not> is_absolute b"
  by (cases b) (auto simp: plain_name_def is_absolute_def)

lemma path_join_current:
  assumes "plain_name b"
  shows "\<exists>d. path_join (path_join x ''current'') b = d @ sep # b"
proof -
  have "path_join x ''current'' \<noteq> []" and "last (path_join x ''current'') \<noteq> sep"
    by (auto simp: path_join_def is_absolute_def sep_def)
  with plain_not_absolute [OF assms] show ?thesis by (simp add: path_join_relative)
qed

interpretation bl: build_lookup store_ok store_bin store_dir
proof unfold_locales
  fix s :: "string \<times> (string \<Rightarrow> bdir)" and b n p
  assume "store_ok s" and b: "plain_name b" and l: "store_bin s n b = Some p"
  then have p: "p = path_join (path_join (name_dir (fst s) n) ''current'') b"
    by (auto simp: store_bin_def current_bin_def split: option.splits if_splits)
  obtain d where "p = d @ sep # b" using path_join_current [OF b] p by metis
  then have "file_name p = Some b" by (simp add: file_name_plain_dir [OF b])
  moreover have "is_absolute p"
    using \<open>store_ok s\<close> by (simp add: p store_ok_def name_dir_def path_join_absolute)
  ultimately show "is_absolute p \<and> file_name p = Some b" by simp
next
  fix s :: "string \<times> (string \<Rightarrow> bdir)" and b n p
  assume "store_bin s n b = Some p"
  then show "\<exists>d. store_dir s n = Some d"
    by (auto simp: store_bin_def store_dir_def current_bin_def current_dir_def split: option.splits)
next
  fix s :: "string \<times> (string \<Rightarrow> bdir)" and n d
  assume "store_ok s" and "store_dir s n = Some d"
  then show "is_absolute d"
    by (auto simp: store_dir_def store_ok_def current_dir_def name_dir_def path_join_absolute split: option.splits)
qed

section \<open>Properties\<close>


definition demo_profile :: profile where
  "demo_profile = \<lparr>pid = ''gemma'', arch_match = [''gemma''], quant_match = [], build_ref = Some ''vk'',
     bin = ''srv'', ld_path = None, penv = [], flags = ''-ngl 99''\<rparr>"


definition matches :: "string \<Rightarrow> string option \<Rightarrow> profile \<Rightarrow> bool" where
  "matches arch quant p \<longleftrightarrow>
     pid p \<noteq> default_id \<and> arch_ok (lower arch) p \<and>
     quant_ok (lower (case quant of None \<Rightarrow> [] | Some q \<Rightarrow> q)) p"

lemma scan_profiles_find:
  "scan_profiles a q ps = find (\<lambda>p. pid p \<noteq> default_id \<and> arch_ok a p \<and> quant_ok q p) ps"
  by (induction ps) auto

text \<open>
 C10: On a profile set that passed validation, resolution never panics: it returns the first entry in
  file order that is not \<open>_default\<close> and matches the architecture and, if it gates on one, the
  quantisation, or, flagged as such, the \<open>_default\<close> entry when nothing matches.
\<close>

theorem resolve_first_match:
  assumes "validate_profiles ps = Inr ()"
  shows "(\<exists>before p after. resolve_profile ps arch quant = Some (p, False) \<and> ps = before @ p # after \<and>
            matches arch quant p \<and> (\<forall>p' \<in> set before. \<not> matches arch quant p')) \<or>
         (\<exists>p. resolve_profile ps arch quant = Some (p, True) \<and> p \<in> set ps \<and> pid p = default_id \<and>
            (\<forall>p' \<in> set ps. \<not> matches arch quant p'))"
proof -
  have e: "resolve_profile ps arch quant =
      (case find (matches arch quant) ps of Some p \<Rightarrow> Some (p, False)
       | None \<Rightarrow> map_option (\<lambda>p. (p, True)) (find (\<lambda>p. pid p = default_id) ps))"
    by (simp add: resolve_profile_def scan_profiles_find Let_def matches_def [abs_def])
  show ?thesis
  proof (cases "find (matches arch quant) ps")
    case (Some p)
    with e have "resolve_profile ps arch quant = Some (p, False)" by simp
    with find_splitD [OF Some] show ?thesis by metis
  next
    case None
    from assms have "find (\<lambda>p. pid p = default_id) ps \<noteq> None"
      by (auto simp: validate_profiles_def find_None_iff list_ex_iff split: if_splits)
    then obtain d where d: "find (\<lambda>p. pid p = default_id) ps = Some d" by blast
    have "resolve_profile ps arch quant = Some (d, True)" using e None d by simp
    moreover have "\<forall>p' \<in> set ps. \<not> matches arch quant p'" using None by (simp add: find_None_set)
    ultimately show ?thesis using find_Some_set [OF d] by blast
  qed
qed

lemma lower_idem: "lower (lower s) = lower s"
  by (simp add: lower_def lower_char_def)

lemma resolve_case_insensitive:
  "resolve_profile ps (lower arch) (map_option lower quant) = resolve_profile ps arch quant"
  by (cases quant) (simp_all add: resolve_profile_def lower_idem lower_def [of "[]"])

definition demo_profiles :: "profile list" where
  "demo_profiles = [demo_profile\<lparr>pid := ''tern'', quant_match := [''Q2_0'']\<rparr>, demo_profile,
     demo_profile\<lparr>pid := default_id, arch_match := []\<rparr>]"

lemma resolve_first_match_witness:
  "\<exists>p \<in> set demo_profiles. resolve_profile demo_profiles ''Gemma3'' (Some ''q4_k'') = Some (p, False)"
proof -
  have "validate_profiles demo_profiles = Inr ()" by code_simp
  moreover have "list_ex (matches ''Gemma3'' (Some ''q4_k'')) demo_profiles" by code_simp
  ultimately show ?thesis
    using resolve_first_match [of demo_profiles "''Gemma3''" "Some ''q4_k''"] in_set_conv_decomp
    unfolding list_ex_iff by metis
qed

subsection \<open>Edits\<close>

lemma edit_profile_id [simp]: "pid (edit_profile fl b ld p) = pid p"
  by (simp add: edit_profile_def Let_def split: option.splits)

lemma update_first_splitD:
  "update_first P f xs = Some ys \<Longrightarrow>
     \<exists>before x after. xs = before @ x # after \<and> P x \<and> (\<forall>y \<in> set before. \<not> P y) \<and>
        ys = before @ f x # after"
proof (induction xs arbitrary: ys)
  case (Cons a xs)
  show ?case
  proof (cases "P a")
    case True
    with Cons.prems have "a # xs = [] @ a # xs" "ys = [] @ f a # xs" by simp_all
    with True show ?thesis by fastforce
  next
    case False
    with Cons obtain before x after zs where "xs = before @ x # after" "P x" "\<forall>y \<in> set before. \<not> P y"
      "zs = before @ f x # after" "ys = a # zs" by auto
    with False have "a # xs = (a # before) @ x # after" "\<forall>y \<in> set (a # before). \<not> P y"
      "ys = (a # before) @ f x # after" by simp_all
    with \<open>P x\<close> show ?thesis by blast
  qed
qed simp

text \<open>
  \<open>profile set\<close> changes the first entry of that id and no other, keeps every id in place and so
  the validity of the set; and a \<open>--bin\<close> that is a path is launched literally from then on, whatever
  managed build the profile named before.
\<close>

theorem profile_set_edits_one:
  assumes "profile_set i fl b ld ps = Inr ps'"
  shows "map pid ps' = map pid ps \<and> (validate_profiles ps = Inr () \<longrightarrow> validate_profiles ps' = Inr ()) \<and>
    (\<exists>before p after. ps = before @ p # after \<and> pid p = i \<and> (\<forall>q \<in> set before. pid q \<noteq> i) \<and>
       ps' = before @ edit_profile fl b ld p # after \<and>
       (\<forall>x. b = Some x \<longrightarrow> sep \<in> set x \<longrightarrow>
          fst (launch find_bin find_dir (edit_profile fl b ld p)) = x))"
proof -
  have "\<exists>before p after. ps = before @ p # after \<and> pid p = i \<and> (\<forall>q \<in> set before. pid q \<noteq> i) \<and>
       ps' = before @ edit_profile fl b ld p # after"
    using assms by (auto simp: profile_set_def split: if_splits option.splits dest: update_first_splitD)
  then obtain before p after where s: "ps = before @ p # after" "pid p = i"
    "\<forall>q \<in> set before. pid q \<noteq> i" "ps' = before @ edit_profile fl b ld p # after" by blast
  have "fst (launch find_bin find_dir (edit_profile fl b ld p)) = x" if "b = Some x" "sep \<in> set x" for x
    using that by (simp add: edit_profile_def Let_def launch_def managed_def split: option.splits)
  with s show ?thesis by (auto simp: validate_profiles_def)
qed

lemma profile_set_edits_one_witness:
  "map pid (case profile_set ''gemma'' None (Some ''/opt/srv'') None demo_profiles of Inr l \<Rightarrow> l | Inl _ \<Rightarrow> [])
     = [''tern'', ''gemma'', default_id]"
proof -
  obtain ps' where "profile_set ''gemma'' None (Some ''/opt/srv'') None demo_profiles = Inr ps'"
    by (simp add: profile_set_def demo_profiles_def demo_profile_def default_id_def)
  with profile_set_edits_one [OF this] show ?thesis
    by (simp add: demo_profiles_def demo_profile_def)
qed



end
