(* ===== verification/Gguf.thy ===== *)
theory Gguf
  imports Pathlib
begin

text \<open>
  The GGUF header reader (src/src/model.rs). A file is its list of bytes; a reader takes the bytes
  left and returns a value with the bytes after it, or the error of \<open>read_exact\<close> at the end of the
  file or of a guard. Integers have the code's widths; a float is kept as its bytes, since the
  program never looks at one. Strings are UTF-8 byte strings, and \<open>utf8_lossy\<close> is
  \<open>String::from_utf8_lossy\<close>.
\<close>

type_synonym bytes = "u8 list"

datatype gguf_error =
    Eof
  | Absurd_length
  | Too_deep
  | Unknown_type u32
  | Bad_magic
  | No_file

datatype gval =
    GU u64
  | GI int
  | GF bytes
  | GBool bool
  | GStr string

type_synonym 'a reader = "bytes \<Rightarrow> gguf_error + 'a \<times> bytes"

section \<open>Little-endian integers and strings\<close>

definition read_n :: "nat \<Rightarrow> bytes reader" where
  "read_n n r = (if n \<le> length r then Inr (take n r, drop n r) else Inl Eof)"

fun le_nat :: "bytes \<Rightarrow> nat" where
  "le_nat [] = 0"
| "le_nat (b # bs) = unat b + 256 * le_nat bs"

definition rd_u32 :: "u32 reader" where
  "rd_u32 r = try_then (read_n 4 r) (\<lambda>(bs, r). Inr (of_nat (le_nat bs), r))"

definition rd_u64 :: "u64 reader" where
  "rd_u64 r = try_then (read_n 8 r) (\<lambda>(bs, r). Inr (of_nat (le_nat bs), r))"

text \<open>The length of the UTF-8 sequence that a list of bytes starts with, and whether it is valid:
  an invalid one is as long as its longest valid beginning, and at least one byte.\<close>

definition cont :: "u8 \<Rightarrow> bool" where
  "cont b \<longleftrightarrow> 0x80 \<le> b \<and> b \<le> 0xBF"

definition second_ok :: "u8 \<Rightarrow> u8 \<Rightarrow> bool" where
  "second_ok b0 b1 \<longleftrightarrow>
     (if b0 = 0xE0 then 0xA0 \<le> b1 \<and> b1 \<le> 0xBF
      else if b0 = 0xED then 0x80 \<le> b1 \<and> b1 \<le> 0x9F
      else if b0 = 0xF0 then 0x90 \<le> b1 \<and> b1 \<le> 0xBF
      else if b0 = 0xF4 then 0x80 \<le> b1 \<and> b1 \<le> 0x8F
      else cont b1)"

definition seq_len :: "u8 \<Rightarrow> nat" where
  "seq_len b =
     (if b < 0x80 then 1
      else if 0xC2 \<le> b \<and> b \<le> 0xDF then 2
      else if 0xE0 \<le> b \<and> b \<le> 0xEF then 3
      else if 0xF0 \<le> b \<and> b \<le> 0xF4 then 4
      else 0)"

definition utf8_prefix :: "bytes \<Rightarrow> nat" where
  "utf8_prefix bs =
     (case bs of
        [] \<Rightarrow> 0
      | b0 # rest \<Rightarrow>
          (if seq_len b0 \<le> 1 then 1
           else case rest of
             [] \<Rightarrow> 1
           | b1 # rest' \<Rightarrow>
               if \<not> second_ok b0 b1 then 1
               else 2 + length (takeWhile cont (take (seq_len b0 - 2) rest'))))"

definition char_of_byte :: "u8 \<Rightarrow> char" where
  "char_of_byte b = char_of (unat b)"

function utf8_lossy :: "bytes \<Rightarrow> string" where
  "utf8_lossy [] = []"
| "utf8_lossy (b # bs) =
     (let n = max (utf8_prefix (b # bs)) 1 in
      (if n = seq_len b then map char_of_byte (take n (b # bs))
       else [CHR 0xEF, CHR 0xBF, CHR 0xBD]) @ utf8_lossy (drop n (b # bs)))"
  by pat_completeness auto
termination
  by (relation "measure length") auto

definition max_str :: nat where
  "max_str = 64 * 1024 * 1024"

definition rd_str :: "string reader" where
  "rd_str r =
     try_then (rd_u64 r) (\<lambda>(n, r).
       if unat n > max_str then Inl Absurd_length
       else try_then (read_n (unat n) r) (\<lambda>(bs, r). Inr (utf8_lossy bs, r)))"

section \<open>Values\<close>

definition max_depth :: nat where
  "max_depth = 8"

text \<open>\<open>for _ in 0..cnt\<close> over a reader whose values are dropped.\<close>

fun rd_times :: "nat \<Rightarrow> 'a reader \<Rightarrow> unit reader" where
  "rd_times n f r =
     (if n = 0 then Inr ((), r) else try_then (f r) (\<lambda>(_, r). rd_times (n - 1) f r))"

declare rd_times.simps [simp del]

definition fixed :: "nat \<Rightarrow> (bytes \<Rightarrow> gval) \<Rightarrow> gval option reader" where
  "fixed n f r = try_then (read_n n r) (\<lambda>(bs, r). Inr (Some (f bs), r))"

definition le_u64 :: "bytes \<Rightarrow> u64" where
  "le_u64 bs = of_nat (le_nat bs)"

text \<open>Two's complement of a little-endian integer of the given number of bytes.\<close>

definition le_int :: "bytes \<Rightarrow> int" where
  "le_int bs =
     (if le_nat bs < 2 ^ (8 * length bs - 1) then int (le_nat bs)
      else int (le_nat bs) - 2 ^ (8 * length bs))"

function rd_val :: "nat \<Rightarrow> u32 \<Rightarrow> gval option reader" where
  "rd_val depth t r =
     (if t = 0 then fixed 1 (\<lambda>bs. GU (le_u64 bs)) r
      else if t = 1 then fixed 1 (\<lambda>bs. GI (le_int bs)) r
      else if t = 2 then fixed 2 (\<lambda>bs. GU (le_u64 bs)) r
      else if t = 3 then fixed 2 (\<lambda>bs. GI (le_int bs)) r
      else if t = 4 then fixed 4 (\<lambda>bs. GU (le_u64 bs)) r
      else if t = 5 then fixed 4 (\<lambda>bs. GI (le_int bs)) r
      else if t = 6 then fixed 4 GF r
      else if t = 7 then fixed 1 (\<lambda>bs. GBool (hd bs \<noteq> 0)) r
      else if t = 8 then try_then (rd_str r) (\<lambda>(s, r). Inr (Some (GStr s), r))
      else if t = 9 then
        (if depth \<ge> max_depth then Inl Too_deep
         else try_then (rd_u32 r) (\<lambda>(et, r). try_then (rd_u64 r) (\<lambda>(cnt, r).
           try_then (rd_times (unat cnt) (\<lambda>r. rd_val (depth + 1) et r) r) (\<lambda>(_, r). Inr (None, r)))))
      else if t = 10 then fixed 8 (\<lambda>bs. GU (le_u64 bs)) r
      else if t = 11 then fixed 8 (\<lambda>bs. GI (le_int bs)) r
      else if t = 12 then fixed 8 GF r
      else Inl (Unknown_type t))"
  by pat_completeness auto
termination
  by (relation "measure (\<lambda>(d, t, r). max_depth - d)") auto

declare rd_val.simps [simp del]

section \<open>The metadata block\<close>

definition magic :: bytes where
  "magic = [0x47, 0x47, 0x55, 0x46]"

type_synonym meta = "(string, gval) btree"

fun rd_kvs :: "nat \<Rightarrow> meta \<Rightarrow> meta reader" where
  "rd_kvs n m r =
     (if n = 0 then Inr (m, r)
      else try_then (rd_str r) (\<lambda>(k, r). try_then (rd_u32 r) (\<lambda>(t, r). try_then (rd_val 0 t r) (\<lambda>(v, r).
        rd_kvs (n - 1) (case v of None \<Rightarrow> m | Some v \<Rightarrow> bt_insert k v m) r))))"

declare rd_kvs.simps [simp del]

definition rd_header :: "(u64 \<times> u64) reader" where
  "rd_header r =
     try_then (read_n 4 r) (\<lambda>(mg, r). if mg \<noteq> magic then Inl Bad_magic
       else try_then (rd_u32 r) (\<lambda>(_, r). try_then (rd_u64 r) (\<lambda>(tensors, r).
         try_then (rd_u64 r) (\<lambda>(kvs, r). Inr ((tensors, kvs), r)))))"

definition read_gguf_meta :: "bytes option \<Rightarrow> gguf_error + meta" where
  "read_gguf_meta file =
     (case file of
        None \<Rightarrow> Inl No_file
      | Some r \<Rightarrow> try_then (rd_header r) (\<lambda>((_, n_kv), r). try_then (rd_kvs (unat n_kv) [] r) (\<lambda>(m, _). Inr m)))"

section \<open>Multi-token prediction\<close>

definition mtp_name :: "string \<Rightarrow> bool" where
  "mtp_name s \<longleftrightarrow> contains (lower s) ''nextn'' \<or> contains (lower s) ''mtp''"

definition truthy :: "gval \<Rightarrow> bool" where
  "truthy v = (case v of GU n \<Rightarrow> n > 0 | GI n \<Rightarrow> n > 0 | GBool b \<Rightarrow> b | _ \<Rightarrow> True)"

definition meta_indicates_mtp :: "meta \<Rightarrow> bool" where
  "meta_indicates_mtp m \<longleftrightarrow> list_ex (\<lambda>(k, v). mtp_name k \<and> truthy v) m"

text \<open>The tensor infos: a name, the dimensions, the type and the offset; any error ends the scan.\<close>

definition rd_tensor_rest :: "unit reader" where
  "rd_tensor_rest r =
     try_then (rd_u32 r) (\<lambda>(nd, r). try_then (rd_times (unat nd) rd_u64 r) (\<lambda>(_, r).
       try_then (rd_u32 r) (\<lambda>(_, r). try_then (rd_u64 r) (\<lambda>(_, r). Inr ((), r)))))"

fun scan_tensors :: "nat \<Rightarrow> bytes \<Rightarrow> bool" where
  "scan_tensors n r =
     (if n = 0 then False
      else case rd_str r of
        Inl _ \<Rightarrow> False
      | Inr (name, r) \<Rightarrow>
          if mtp_name name then True
          else (case rd_tensor_rest r of Inl _ \<Rightarrow> False | Inr (_, r) \<Rightarrow> scan_tensors (n - 1) r))"

declare scan_tensors.simps [simp del]

definition skip_kv :: "unit reader" where
  "skip_kv r =
     try_then (rd_str r) (\<lambda>(_, r). try_then (rd_u32 r) (\<lambda>(t, r). try_then (rd_val 0 t r) (\<lambda>(_, r). Inr ((), r))))"

definition has_mtp_tensors :: "bytes option \<Rightarrow> bool" where
  "has_mtp_tensors file =
     (case file of
        None \<Rightarrow> False
      | Some r \<Rightarrow>
          (case rd_header r of
             Inl _ \<Rightarrow> False
           | Inr ((tensors, n_kv), r) \<Rightarrow>
               (case rd_times (unat n_kv) skip_kv r of
                  Inl _ \<Rightarrow> False
                | Inr (_, r) \<Rightarrow> scan_tensors (unat tensors) r)))"


section \<open>An encoder for the format\<close>

text \<open>
  What a well-formed value, entry and tensor info look like as bytes: the specification the reader
  is compared with.
\<close>

fun le_bytes :: "nat \<Rightarrow> nat \<Rightarrow> bytes" where
  "le_bytes 0 n = []"
| "le_bytes (Suc k) n = of_nat n # le_bytes k (n div 256)"

datatype gdata =
    D_fix u32 bytes
  | D_str bytes
  | D_arr u32 "gdata list"

fun gtype :: "gdata \<Rightarrow> u32" where
  "gtype (D_fix t _) = t"
| "gtype (D_str _) = 8"
| "gtype (D_arr _ _) = 9"

fun enc :: "gdata \<Rightarrow> bytes" where
  "enc (D_fix t bs) = bs"
| "enc (D_str bs) = le_bytes 8 (length bs) @ bs"
| "enc (D_arr et xs) = le_bytes 4 (unat et) @ le_bytes 8 (length xs) @ concat (map enc xs)"

definition fix_len :: "u32 \<Rightarrow> nat option" where
  "fix_len t =
     (if t = 0 \<or> t = 1 \<or> t = 7 then Some 1
      else if t = 2 \<or> t = 3 then Some 2
      else if t = 4 \<or> t = 5 \<or> t = 6 then Some 4
      else if t = 10 \<or> t = 11 \<or> t = 12 then Some 8
      else None)"

definition fix_val :: "u32 \<Rightarrow> bytes \<Rightarrow> gval" where
  "fix_val t bs =
     (if t \<in> {0, 2, 4, 10} then GU (le_u64 bs)
      else if t \<in> {1, 3, 5, 11} then GI (le_int bs)
      else if t = 7 then GBool (hd bs \<noteq> 0)
      else GF bs)"

fun well_formed :: "nat \<Rightarrow> gdata \<Rightarrow> bool" where
  "well_formed d (D_fix t bs) = (fix_len t = Some (length bs))"
| "well_formed d (D_str bs) = (length bs \<le> max_str)"
| "well_formed d (D_arr et xs) =
     (d < max_depth \<and> length xs < 2 ^ 64 \<and> list_all (\<lambda>x. gtype x = et \<and> well_formed (d + 1) x) xs)"

fun gval_of :: "gdata \<Rightarrow> gval option" where
  "gval_of (D_fix t bs) = Some (fix_val t bs)"
| "gval_of (D_str bs) = Some (GStr (utf8_lossy bs))"
| "gval_of (D_arr _ _) = None"

lemma length_le_bytes [simp]: "length (le_bytes k n) = k"
  by (induction k n rule: le_bytes.induct) auto

lemma le_nat_le_bytes: "n < 256 ^ k \<Longrightarrow> le_nat (le_bytes k n) = n"
proof (induction k n rule: le_bytes.induct)
  case (2 k n)
  have "unat (of_nat n :: u8) = n mod 256" by (simp add: unat_of_nat)
  moreover have "n div 256 < 256 ^ k" using 2 by (simp add: less_mult_imp_div_less mult.commute)
  ultimately show ?case using 2 by simp
qed simp

lemma u8_bound: "unat (b :: u8) < 256"
  using unsigned_less [of b] by simp

lemma le_nat_bound: "le_nat bs < 256 ^ length bs"
proof (induction bs)
  case (Cons b bs)
  with u8_bound [of b] show ?case by simp
qed simp

lemma le_bytes_le_nat: "le_bytes (length bs) (le_nat bs) = bs"
proof (induction bs)
  case (Cons b bs)
  have z: "(256 :: u8) = 0" by (simp add: word_unat_eq_iff)
  have "(of_nat (unat b + 256 * le_nat bs) :: u8) = b"
    by (simp only: of_nat_add of_nat_mult of_nat_numeral z mult_zero_left add_0_right) simp
  moreover have "(unat b + 256 * le_nat bs) div 256 = le_nat bs" using u8_bound [of b] by simp
  ultimately show ?case using Cons by simp
qed simp

lemma read_n_iff: "read_n n r = Inr (bs, r') \<longleftrightarrow> length bs = n \<and> r = bs @ r'"
  by (auto simp: read_n_def)


section \<open>The reader accepts exactly the encodings\<close>

lemma split_Inr: "(case p of (a, b) \<Rightarrow> f a b) = Inr y \<longleftrightarrow> f (fst p) (snd p) = Inr y"
  by (cases p) auto

lemma rd_u64_iff: "rd_u64 r = Inr (n, r') \<longleftrightarrow> r = le_bytes 8 (unat n) @ r'"
proof
  assume "rd_u64 r = Inr (n, r')"
  then obtain bs where bs: "length bs = 8" "r = bs @ r'" "n = of_nat (le_nat bs)"
    by (auto simp: rd_u64_def try_then_Inr read_n_iff)
  have "le_nat bs < 2 ^ 64" using le_nat_bound [of bs] bs(1) by simp
  then have "unat n = le_nat bs" by (simp add: bs(3) unat_of_nat)
  then show "r = le_bytes 8 (unat n) @ r'" using le_bytes_le_nat [of bs] bs by simp
next
  assume r: "r = le_bytes 8 (unat n) @ r'"
  have "unat n < 256 ^ 8" using unsigned_less [of n] by simp
  then have "le_nat (le_bytes 8 (unat n)) = unat n" by (rule le_nat_le_bytes)
  then have "rd_u64 r = Inr (of_nat (unat n), r')"
    by (simp add: rd_u64_def read_n_def r)
  then show "rd_u64 r = Inr (n, r')" by simp
qed

lemma rd_u32_iff: "rd_u32 r = Inr (n, r') \<longleftrightarrow> r = le_bytes 4 (unat n) @ r'"
proof
  assume "rd_u32 r = Inr (n, r')"
  then obtain bs where bs: "length bs = 4" "r = bs @ r'" "n = of_nat (le_nat bs)"
    by (auto simp: rd_u32_def try_then_Inr read_n_iff)
  have "le_nat bs < 2 ^ 32" using le_nat_bound [of bs] bs(1) by simp
  then have "unat n = le_nat bs" by (simp add: bs(3) unat_of_nat)
  then show "r = le_bytes 4 (unat n) @ r'" using le_bytes_le_nat [of bs] bs by simp
next
  assume r: "r = le_bytes 4 (unat n) @ r'"
  have "unat n < 256 ^ 4" using unsigned_less [of n] by simp
  then have "le_nat (le_bytes 4 (unat n)) = unat n" by (rule le_nat_le_bytes)
  then have "rd_u32 r = Inr (of_nat (unat n), r')"
    by (simp add: rd_u32_def read_n_def r)
  then show "rd_u32 r = Inr (n, r')" by simp
qed

definition enc_str :: "bytes \<Rightarrow> bytes" where
  "enc_str bs = le_bytes 8 (length bs) @ bs"

lemma rd_str_iff:
  "rd_str r = Inr (s, r') \<longleftrightarrow> (\<exists>bs. length bs \<le> max_str \<and> s = utf8_lossy bs \<and> r = enc_str bs @ r')"
proof
  assume "rd_str r = Inr (s, r')"
  then obtain n r1 bs where "rd_u64 r = Inr (n, r1)" "unat n \<le> max_str" "length bs = unat n" "r1 = bs @ r'"
    "s = utf8_lossy bs"
    by (auto simp: rd_str_def try_then_Inr read_n_iff split: if_splits)
  then show "\<exists>bs. length bs \<le> max_str \<and> s = utf8_lossy bs \<and> r = enc_str bs @ r'"
    by (intro exI [of _ bs]) (simp add: rd_u64_iff enc_str_def)
next
  assume "\<exists>bs. length bs \<le> max_str \<and> s = utf8_lossy bs \<and> r = enc_str bs @ r'"
  then obtain bs where bs: "length bs \<le> max_str" "s = utf8_lossy bs" "r = enc_str bs @ r'" by blast
  have u: "unat (of_nat (length bs) :: u64) = length bs"
    using bs(1) by (simp add: unat_of_nat max_str_def)
  have "rd_u64 r = Inr (of_nat (length bs), bs @ r')"
    unfolding rd_u64_iff u by (simp add: bs enc_str_def)
  with bs u show "rd_str r = Inr (s, r')" by (simp add: rd_str_def read_n_def)
qed

lemma fixed_iff: "fixed n f r = Inr (v, r') \<longleftrightarrow> (\<exists>bs. length bs = n \<and> v = Some (f bs) \<and> r = bs @ r')"
  by (auto simp: fixed_def try_then_Inr read_n_iff)

lemma rd_times_0: "rd_times 0 f r = Inr ((), r)"
  by (simp add: rd_times.simps)

lemma rd_times_Suc: "rd_times (Suc n) f r = try_then (f r) (\<lambda>(_, r). rd_times n f r)"
  by (subst rd_times.simps) simp

text \<open>A loop over a reader that reads exactly the encodings of some set reads lists of them.\<close>

lemma rd_times_iff:
  assumes "\<And>r v r'. f r = Inr (v, r') \<longleftrightarrow> (\<exists>x. P x \<and> v = g x \<and> r = e x @ r')"
  shows "rd_times n f r = Inr (u, r') \<longleftrightarrow>
    (\<exists>xs. length xs = n \<and> list_all P xs \<and> r = concat (map e xs) @ r')"
proof (induction n arbitrary: r)
  case 0
  then show ?case by (auto simp: rd_times_0)
next
  case (Suc n)
  have "rd_times (Suc n) f r = Inr (u, r') \<longleftrightarrow>
      (\<exists>x r1. P x \<and> r = e x @ r1 \<and> rd_times n f r1 = Inr (u, r'))"
    by (auto simp: rd_times_Suc try_then_Inr assms)
  also have "\<dots> \<longleftrightarrow> (\<exists>x xs. P x \<and> r = e x @ concat (map e xs) @ r' \<and> length xs = n \<and> list_all P xs)"
    unfolding Suc by blast
  also have "\<dots> \<longleftrightarrow> (\<exists>ys. length ys = Suc n \<and> list_all P ys \<and> r = concat (map e ys) @ r')"
  proof safe
    fix x xs assume "P x" "list_all P xs"
    then show "\<exists>ys. length ys = Suc (length xs) \<and> list_all P ys \<and>
        e x @ concat (map e xs) @ r' = concat (map e ys) @ r'"
      by (intro exI [of _ "x # xs"]) simp
  next
    fix ys assume "length ys = Suc n" "list_all P ys"
    then show "\<exists>x xs. P x \<and> concat (map e ys) @ r' = e x @ concat (map e xs) @ r' \<and>
        length xs = n \<and> list_all P xs"
      by (cases ys) auto
  qed
  finally show ?case .
qed


lemma rd_val_fix:
  assumes "t \<noteq> 8" and "t \<noteq> 9"
  shows "rd_val d t r = (case fix_len t of Some n \<Rightarrow> fixed n (fix_val t) r | None \<Rightarrow> Inl (Unknown_type t))"
proof (cases "t \<in> {0, 1, 2, 3, 4, 5, 6, 7, 10, 11, 12}")
  case True
  then show ?thesis by (auto simp: rd_val.simps fix_len_def fix_val_def [abs_def])
next
  case False
  with assms show ?thesis by (subst rd_val.simps) (simp add: fix_len_def)
qed

lemma ex_fix:
  assumes "t \<noteq> 8" and "t \<noteq> 9"
  shows "(\<exists>x. well_formed d x \<and> gtype x = t \<and> v = gval_of x \<and> r = enc x @ r') \<longleftrightarrow>
    (\<exists>bs. fix_len t = Some (length bs) \<and> v = Some (fix_val t bs) \<and> r = bs @ r')"
proof
  assume "\<exists>x. well_formed d x \<and> gtype x = t \<and> v = gval_of x \<and> r = enc x @ r'"
  then obtain x where x: "well_formed d x" "gtype x = t" "v = gval_of x" "r = enc x @ r'" by blast
  with assms show "\<exists>bs. fix_len t = Some (length bs) \<and> v = Some (fix_val t bs) \<and> r = bs @ r'"
    by (cases x) auto
next
  assume "\<exists>bs. fix_len t = Some (length bs) \<and> v = Some (fix_val t bs) \<and> r = bs @ r'"
  then obtain bs where "fix_len t = Some (length bs)" "v = Some (fix_val t bs)" "r = bs @ r'" by blast
  then show "\<exists>x. well_formed d x \<and> gtype x = t \<and> v = gval_of x \<and> r = enc x @ r'"
    by (intro exI [of _ "D_fix t bs"]) simp
qed

lemma fix_len_8_9 [simp]: "fix_len 8 = None" "fix_len 9 = None"
  by (simp_all add: fix_len_def)

lemma ex_str:
  "(\<exists>x. well_formed d x \<and> gtype x = 8 \<and> v = gval_of x \<and> r = enc x @ r') \<longleftrightarrow>
     (\<exists>bs. length bs \<le> max_str \<and> v = Some (GStr (utf8_lossy bs)) \<and> r = enc_str bs @ r')"
proof safe
  fix x assume "well_formed d x" "gtype x = 8"
  then show "\<exists>bs. length bs \<le> max_str \<and> gval_of x = Some (GStr (utf8_lossy bs)) \<and>
      enc x @ r' = enc_str bs @ r'" by (cases x) (auto simp: enc_str_def)
next
  fix bs :: bytes assume "length bs \<le> max_str"
  then show "\<exists>x. well_formed d x \<and> gtype x = 8 \<and> Some (GStr (utf8_lossy bs)) = gval_of x \<and>
      enc_str bs @ r' = enc x @ r'"
    by (intro exI [of _ "D_str bs"]) (simp add: enc_str_def)
qed

lemma ex_arr:
  "(\<exists>x. well_formed d x \<and> gtype x = 9 \<and> v = gval_of x \<and> r = enc x @ r') \<longleftrightarrow>
     d < max_depth \<and> v = None \<and> (\<exists>et xs. length xs < 2 ^ 64 \<and>
       list_all (\<lambda>x. gtype x = et \<and> well_formed (d + 1) x) xs \<and>
       r = le_bytes 4 (unat et) @ le_bytes 8 (length xs) @ concat (map enc xs) @ r')"
  (is "?L \<longleftrightarrow> ?R")
proof
  assume ?L
  then obtain x where x: "well_formed d x" "gtype x = 9" "v = gval_of x" "r = enc x @ r'" by blast
  then obtain et xs where "x = D_arr et xs" by (cases x) auto
  with x show ?R by auto
next
  assume ?R
  then obtain et xs where "d < max_depth" "v = None" "length xs < 2 ^ 64"
    "list_all (\<lambda>x. gtype x = et \<and> well_formed (d + 1) x) xs"
    "r = le_bytes 4 (unat et) @ le_bytes 8 (length xs) @ concat (map enc xs) @ r'" by blast
  then show ?L by (intro exI [of _ "D_arr et xs"]) simp
qed

lemma rd_val_arr:
  "rd_val d 9 r = Inr (v, r') \<longleftrightarrow> d < max_depth \<and> v = None \<and> (\<exists>et cnt r1.
     r = le_bytes 4 (unat et) @ le_bytes 8 (unat cnt) @ r1 \<and>
     rd_times (unat (cnt :: u64)) (rd_val (d + 1) et) r1 = Inr ((), r'))"
proof -
  have "rd_val d 9 r =
     (if d \<ge> max_depth then Inl Too_deep
         else try_then (rd_u32 r) (\<lambda>(et, r). try_then (rd_u64 r) (\<lambda>(cnt, r).
           try_then (rd_times (unat cnt) (\<lambda>r. rd_val (d + 1) et r) r) (\<lambda>(_, r). Inr (None, r)))))"
    by (subst rd_val.simps) simp
  then show ?thesis
    by (simp add: try_then_Inr rd_u32_iff rd_u64_iff) blast
qed

lemma rd_val_str: "rd_val d 8 r = Inr (v, r') \<longleftrightarrow> (\<exists>s. rd_str r = Inr (s, r') \<and> v = Some (GStr s))"
proof -
  have "rd_val d 8 r = try_then (rd_str r) (\<lambda>(s, r). Inr (Some (GStr s), r))"
    by (subst rd_val.simps) simp
  then show ?thesis by (auto simp: try_then_Inr)
qed

lemma rd_val_iff:
  "rd_val d t r = Inr (v, r') \<longleftrightarrow>
     (\<exists>x. well_formed d x \<and> gtype x = t \<and> v = gval_of x \<and> r = enc x @ r')"
proof (induction "max_depth - d" arbitrary: d t r v r' rule: less_induct)
  case (less d t r v r')
  consider "t = 8" | "t = 9" "\<not> d < max_depth" | "t = 9" "d < max_depth" | "t \<noteq> 8" "t \<noteq> 9" by blast
  then show ?case
  proof cases
    case 1
    then show ?thesis by (auto simp: rd_val_str ex_str rd_str_iff)
  next
    case 2
    then show ?thesis by (simp add: rd_val_arr ex_arr)
  next
    case 3
    have IH: "rd_val (d + 1) et r = Inr (v, r') \<longleftrightarrow>
        (\<exists>x. (gtype x = et \<and> well_formed (d + 1) x) \<and> v = gval_of x \<and> r = enc x @ r')" for et r v r'
      using less(1) [of "d + 1" et r v r'] 3 by auto
    have "(\<exists>cnt r1. r = le_bytes 4 (unat et) @ le_bytes 8 (unat cnt) @ r1 \<and>
        rd_times (unat (cnt :: u64)) (rd_val (d + 1) et) r1 = Inr ((), r')) \<longleftrightarrow>
      (\<exists>xs. length xs < 2 ^ 64 \<and> list_all (\<lambda>x. gtype x = et \<and> well_formed (d + 1) x) xs \<and>
        r = le_bytes 4 (unat et) @ le_bytes 8 (length xs) @ concat (map enc xs) @ r')" (is "?L \<longleftrightarrow> ?R") for et
    proof
      assume ?L
      then obtain cnt r1 xs where x: "r = le_bytes 4 (unat et) @ le_bytes 8 (unat (cnt :: u64)) @ r1"
        "length xs = unat cnt" "list_all (\<lambda>x. gtype x = et \<and> well_formed (d + 1) x) xs"
        "r1 = concat (map enc xs) @ r'"
        unfolding rd_times_iff [OF IH] by blast
      moreover have "length xs < 2 ^ 64" using x(2) unsigned_less [of cnt] by simp
      ultimately show ?R by (intro exI [of _ xs]) simp
    next
      assume ?R
      then obtain xs where x: "length xs < 2 ^ 64" "list_all (\<lambda>x. gtype x = et \<and> well_formed (d + 1) x) xs"
        "r = le_bytes 4 (unat et) @ le_bytes 8 (length xs) @ concat (map enc xs) @ r'" by blast
      have u: "unat (of_nat (length xs) :: u64) = length xs" using x(1) by (simp add: unat_of_nat)
      show ?L
      proof (intro exI conjI)
        show "r = le_bytes 4 (unat et) @ le_bytes 8 (unat (of_nat (length xs) :: u64)) @ concat (map enc xs) @ r'"
          using x u by simp
        show "rd_times (unat (of_nat (length xs) :: u64)) (rd_val (d + 1) et) (concat (map enc xs) @ r') = Inr ((), r')"
          unfolding rd_times_iff [OF IH] u using x by blast
      qed
    qed
    with 3 show ?thesis by (simp add: rd_val_arr ex_arr)
  next
    case 4
    then show ?thesis by (simp add: rd_val_fix ex_fix fixed_iff split: option.splits) auto
  qed
qed


section \<open>Whole files\<close>

type_synonym kv = "bytes \<times> gdata"

definition kv_ok :: "kv \<Rightarrow> bool" where
  "kv_ok p \<longleftrightarrow> length (fst p) \<le> max_str \<and> well_formed 0 (snd p)"

definition enc_kv :: "kv \<Rightarrow> bytes" where
  "enc_kv p = enc_str (fst p) @ le_bytes 4 (unat (gtype (snd p))) @ enc (snd p)"

definition enc_header :: "u32 \<Rightarrow> u64 \<Rightarrow> u64 \<Rightarrow> bytes" where
  "enc_header ver tensors kvs =
     magic @ le_bytes 4 (unat ver) @ le_bytes 8 (unat tensors) @ le_bytes 8 (unat kvs)"

text \<open>The scalar entries of a metadata block in file order.\<close>

fun scalars :: "kv list \<Rightarrow> (string \<times> gval) list" where
  "scalars [] = []"
| "scalars (p # ps) =
     (case gval_of (snd p) of None \<Rightarrow> scalars ps | Some v \<Rightarrow> (utf8_lossy (fst p), v) # scalars ps)"

lemma rd_header_iff:
  "rd_header r = Inr ((t, n), r') \<longleftrightarrow> (\<exists>ver. r = enc_header ver t n @ r')"
proof
  assume "rd_header r = Inr ((t, n), r')"
  then show "\<exists>ver. r = enc_header ver t n @ r'"
    by (auto simp: rd_header_def try_then_Inr read_n_iff rd_u32_iff rd_u64_iff enc_header_def split: if_splits)
next
  assume "\<exists>ver. r = enc_header ver t n @ r'"
  then obtain ver where r: "r = enc_header ver t n @ r'" by blast
  have "read_n 4 r = Inr (magic, le_bytes 4 (unat ver) @ le_bytes 8 (unat t) @ le_bytes 8 (unat n) @ r')"
    by (simp add: r read_n_iff enc_header_def magic_def)
  moreover have "rd_u32 (le_bytes 4 (unat ver) @ x) = Inr (ver, x)" for x by (simp add: rd_u32_iff)
  moreover have "rd_u64 (le_bytes 8 (unat m) @ x) = Inr (m, x)" for m x by (simp add: rd_u64_iff)
  ultimately show "rd_header r = Inr ((t, n), r')" by (simp add: rd_header_def)
qed

lemma rd_kvs_Suc:
  "rd_kvs (Suc n) m r = Inr (m', r') \<longleftrightarrow>
     (\<exists>p r1. kv_ok p \<and> r = enc_kv p @ r1 \<and>
        rd_kvs n (bt_extend m (scalars [p])) r1 = Inr (m', r'))"
  (is "?L \<longleftrightarrow> ?R")
proof
  assume ?L
  then obtain k x r1 where "length k \<le> max_str" "well_formed 0 x"
    "r = enc_str k @ le_bytes 4 (unat (gtype x)) @ enc x @ r1"
    "rd_kvs n (case gval_of x of None \<Rightarrow> m | Some v \<Rightarrow> bt_insert (utf8_lossy k) v m) r1 = Inr (m', r')"
    by (subst (asm) rd_kvs.simps) (auto simp: try_then_Inr rd_str_iff rd_u32_iff rd_val_iff)
  then show ?R
    by (intro exI [of _ "(k, x)"] exI [of _ r1])
      (auto simp: kv_ok_def enc_kv_def bt_extend_def split: option.splits)
next
  assume ?R
  then obtain k x r1 where kx: "length k \<le> max_str" "well_formed 0 x"
    "r = enc_str k @ le_bytes 4 (unat (gtype x)) @ enc x @ r1"
    "rd_kvs n (bt_extend m (scalars [(k, x)])) r1 = Inr (m', r')"
    by (auto simp: kv_ok_def enc_kv_def)
  have "rd_str r = Inr (utf8_lossy k, le_bytes 4 (unat (gtype x)) @ enc x @ r1)"
    using kx by (auto simp: rd_str_iff)
  moreover have "rd_u32 (le_bytes 4 (unat (gtype x)) @ enc x @ r1) = Inr (gtype x, enc x @ r1)"
    by (simp add: rd_u32_iff)
  moreover have "rd_val 0 (gtype x) (enc x @ r1) = Inr (gval_of x, r1)"
    using kx(2) by (auto simp: rd_val_iff)
  ultimately show ?L using kx(4)
    by (subst rd_kvs.simps) (auto simp: bt_extend_def split: option.splits)
qed

lemma bt_extend_append: "bt_extend m (xs @ ys) = bt_extend (bt_extend m xs) ys"
  by (simp add: bt_extend_def)

lemma scalars_append: "scalars (ps @ qs) = scalars ps @ scalars qs"
  by (induction ps) (auto split: option.splits)

lemma rd_kvs_iff:
  "rd_kvs n m r = Inr (m', r') \<longleftrightarrow>
     (\<exists>ps. length ps = n \<and> list_all kv_ok ps \<and> m' = bt_extend m (scalars ps) \<and>
        r = concat (map enc_kv ps) @ r')"
proof (induction n arbitrary: m r)
  case 0
  then show ?case by (auto simp: rd_kvs.simps bt_extend_def)
next
  case (Suc n)
  show ?case
  proof
    assume "rd_kvs (Suc n) m r = Inr (m', r')"
    then obtain p r1 ps where "kv_ok p" "r = enc_kv p @ r1" "length ps = n" "list_all kv_ok ps"
      "m' = bt_extend (bt_extend m (scalars [p])) (scalars ps)" "r1 = concat (map enc_kv ps) @ r'"
      unfolding rd_kvs_Suc Suc by blast
    then show "\<exists>ps. length ps = Suc n \<and> list_all kv_ok ps \<and> m' = bt_extend m (scalars ps) \<and>
        r = concat (map enc_kv ps) @ r'"
      using scalars_append [of "[p]" ps]
      by (intro exI [of _ "p # ps"]) (simp add: bt_extend_append [symmetric])
  next
    assume "\<exists>ps. length ps = Suc n \<and> list_all kv_ok ps \<and> m' = bt_extend m (scalars ps) \<and>
        r = concat (map enc_kv ps) @ r'"
    then obtain p ps where ps: "length ps = n" "kv_ok p" "list_all kv_ok ps"
      "m' = bt_extend m (scalars (p # ps))" "r = enc_kv p @ concat (map enc_kv ps) @ r'"
      by (auto simp: length_Suc_conv)
    have "m' = bt_extend (bt_extend m (scalars [p])) (scalars ps)"
      using scalars_append [of "[p]" ps] ps(4) by (simp add: bt_extend_append [symmetric])
    with ps show "rd_kvs (Suc n) m r = Inr (m', r')"
      unfolding rd_kvs_Suc Suc by blast
  qed
qed

lemma read_gguf_meta_enc:
  assumes "length kvs < 2 ^ 64" and "list_all kv_ok kvs"
  shows "read_gguf_meta (Some (enc_header ver tensors (of_nat (length kvs)) @ concat (map enc_kv kvs) @ rest)) =
    Inr (bt_extend [] (scalars kvs))"
proof -
  have u: "unat (of_nat (length kvs) :: u64) = length kvs" using assms(1) by (simp add: unat_of_nat)
  have "rd_header (enc_header ver t n @ x) = Inr ((t, n), x)" for t n x unfolding rd_header_iff by blast
  moreover have "rd_kvs (length kvs) [] (concat (map enc_kv kvs) @ rest) = Inr (bt_extend [] (scalars kvs), rest)"
    unfolding rd_kvs_iff using assms by blast
  ultimately show ?thesis using u by (simp add: read_gguf_meta_def)
qed

text \<open>
 C12: The header reader accepts exactly the well-formed headers: it succeeds with a metadata map if
  and only if the file starts with the encoding of a header whose strings are within the length
  guard and whose arrays nest at most eight deep, and the map is then the scalar entries in file
  order, a later one replacing an earlier one of the same key; arrays are read and dropped.
\<close>

theorem read_gguf_meta_iff:
  "read_gguf_meta (Some bs) = Inr m \<longleftrightarrow>
     (\<exists>ver tensors kvs rest. length kvs < 2 ^ 64 \<and> list_all kv_ok kvs \<and>
        bs = enc_header ver tensors (of_nat (length kvs)) @ concat (map enc_kv kvs) @ rest \<and>
        m = bt_extend [] (scalars kvs))"
  (is "?L \<longleftrightarrow> ?R")
proof
  assume ?L
  then obtain t n r1 r2 where "rd_header bs = Inr ((t, n), r1)" "rd_kvs (unat n) [] r1 = Inr (m, r2)"
    by (auto simp: read_gguf_meta_def try_then_Inr)
  then obtain ver kvs where k: "bs = enc_header ver t n @ r1" "length kvs = unat n" "list_all kv_ok kvs"
    "m = bt_extend [] (scalars kvs)" "r1 = concat (map enc_kv kvs) @ r2"
    unfolding rd_header_iff rd_kvs_iff by blast
  have "length kvs < 2 ^ 64" using k(2) unsigned_less [of n] by simp
  moreover have "n = of_nat (length kvs)" by (simp add: k(2))
  ultimately show ?R using k by blast
next
  assume ?R
  then obtain ver tensors kvs rest where k: "length kvs < 2 ^ 64" "list_all kv_ok kvs"
    "bs = enc_header ver tensors (of_nat (length kvs)) @ concat (map enc_kv kvs) @ rest"
    "m = bt_extend [] (scalars kvs)" by blast
  then show ?L using read_gguf_meta_enc [OF k(1,2)] by simp
qed


text \<open>A tensor info: name, dimensions, type, offset.\<close>

record tensor =
  tname :: bytes
  tdims :: "u64 list"
  ttype :: u32
  toffset :: u64

definition enc_tensor_rest :: "tensor \<Rightarrow> bytes" where
  "enc_tensor_rest t =
     le_bytes 4 (length (tdims t)) @ concat (map (\<lambda>d. le_bytes 8 (unat d)) (tdims t)) @
     le_bytes 4 (unat (ttype t)) @ le_bytes 8 (unat (toffset t))"

definition enc_tensor :: "tensor \<Rightarrow> bytes" where
  "enc_tensor t = enc_str (tname t) @ enc_tensor_rest t"

definition tensor_ok :: "tensor \<Rightarrow> bool" where
  "tensor_ok t \<longleftrightarrow> length (tname t) \<le> max_str \<and> length (tdims t) < 2 ^ 32"

lemma rd_tensor_rest_enc:
  assumes "tensor_ok t"
  shows "rd_tensor_rest (enc_tensor_rest t @ r) = Inr ((), r)"
proof -
  let ?ds = "concat (map (\<lambda>d. le_bytes 8 (unat d)) (tdims t))"
  let ?n = "of_nat (length (tdims t)) :: u32"
  have u: "unat ?n = length (tdims t)" using assms by (simp add: unat_of_nat tensor_ok_def)
  have "rd_u32 (le_bytes 4 (unat ?n) @ x) = Inr (?n, x)" for x by (simp only: rd_u32_iff)
  then have 1: "rd_u32 (le_bytes 4 (length (tdims t)) @ x) = Inr (?n, x)" for x by (simp only: u)
  have "rd_u64 x = Inr (v, x') \<longleftrightarrow> (\<exists>d. True \<and> v = d \<and> x = le_bytes 8 (unat d) @ x')" for x v x'
    by (auto simp: rd_u64_iff)
  from rd_times_iff [OF this, of "length (tdims t)"]
  have 2: "rd_times (length (tdims t)) rd_u64 (?ds @ x) = Inr ((), x)" for x
    by (auto intro!: exI [of _ "tdims t"] simp: list_all_iff)
  have 3: "rd_u32 (le_bytes 4 (unat n) @ x) = Inr (n, x)" "rd_u64 (le_bytes 8 (unat m) @ x) = Inr (m, x)"
    for n m x by (simp_all add: rd_u32_iff rd_u64_iff)
  show ?thesis by (simp add: rd_tensor_rest_def enc_tensor_rest_def 1 2 3 u del: le_bytes.simps)
qed

lemma scan_tensors_enc:
  "list_all tensor_ok ts \<Longrightarrow>
     scan_tensors (length ts) (concat (map enc_tensor ts) @ r) \<longleftrightarrow> (\<exists>t \<in> set ts. mtp_name (utf8_lossy (tname t)))"
proof (induction ts)
  case Nil
  then show ?case by (simp add: scan_tensors.simps)
next
  case (Cons t ts)
  have "rd_str (enc_str (tname t) @ x) = Inr (utf8_lossy (tname t), x)" for x
    using Cons.prems by (auto simp: rd_str_iff tensor_ok_def)
  then show ?case using Cons
    by (subst scan_tensors.simps) (simp add: enc_tensor_def [of t] rd_tensor_rest_enc)
qed

lemma skip_kv_iff: "skip_kv r = Inr (u, r') \<longleftrightarrow> (\<exists>p. kv_ok p \<and> u = () \<and> r = enc_kv p @ r')"
proof
  assume "skip_kv r = Inr (u, r')"
  then obtain k x where "length k \<le> max_str" "well_formed 0 x"
    "r = enc_str k @ le_bytes 4 (unat (gtype x)) @ enc x @ r'"
    by (auto simp: skip_kv_def try_then_Inr rd_str_iff rd_u32_iff rd_val_iff)
  then show "\<exists>p. kv_ok p \<and> u = () \<and> r = enc_kv p @ r'"
    by (intro exI [of _ "(k, x)"]) (simp add: kv_ok_def enc_kv_def)
next
  assume "\<exists>p. kv_ok p \<and> u = () \<and> r = enc_kv p @ r'"
  then obtain k x where kx: "length k \<le> max_str" "well_formed 0 x"
    "r = enc_str k @ le_bytes 4 (unat (gtype x)) @ enc x @ r'" by (auto simp: kv_ok_def enc_kv_def)
  have "rd_str r = Inr (utf8_lossy k, le_bytes 4 (unat (gtype x)) @ enc x @ r')"
    using kx by (auto simp: rd_str_iff)
  moreover have "rd_u32 (le_bytes 4 (unat (gtype x)) @ enc x @ r') = Inr (gtype x, enc x @ r')"
    by (simp add: rd_u32_iff)
  moreover have "rd_val 0 (gtype x) (enc x @ r') = Inr (gval_of x, r')"
    using kx(2) by (auto simp: rd_val_iff)
  ultimately show "skip_kv r = Inr (u, r')" by (simp add: skip_kv_def)
qed

text \<open>
 C13: The scan of the tensor infos is exact on a well-formed file: whatever the metadata says, it
  reports multi-token prediction if and only if some tensor of the file has \<open>nextn\<close> or \<open>mtp\<close> in
  its name, in any case.
\<close>

theorem has_mtp_tensors_exact:
  assumes "length kvs < 2 ^ 64" and "list_all kv_ok kvs" and "length ts < 2 ^ 64" and "list_all tensor_ok ts"
  shows "has_mtp_tensors (Some (enc_header ver (of_nat (length ts)) (of_nat (length kvs)) @
      concat (map enc_kv kvs) @ concat (map enc_tensor ts) @ rest))
    \<longleftrightarrow> (\<exists>t \<in> set ts. mtp_name (utf8_lossy (tname t)))"
proof -
  have u: "unat (of_nat (length kvs) :: u64) = length kvs" "unat (of_nat (length ts) :: u64) = length ts"
    using assms by (simp_all add: unat_of_nat)
  have "rd_header (enc_header ver t n @ x) = Inr ((t, n), x)" for t n x unfolding rd_header_iff by blast
  moreover have "rd_times (length kvs) skip_kv (concat (map enc_kv kvs) @ x) = Inr ((), x)" for x
    unfolding rd_times_iff [of skip_kv kv_ok "\<lambda>_. ()" enc_kv, OF skip_kv_iff] using assms(2) by blast
  ultimately show ?thesis
    by (simp add: has_mtp_tensors_def u scan_tensors_enc [OF assms(4)])
qed

lemma has_mtp_tensors_exact_witness:
  "has_mtp_tensors (Some (enc_header 3 1 0 @
      enc_tensor \<lparr>tname = [0x4D, 0x54, 0x50], tdims = [2], ttype = 0, toffset = 0\<rparr>))"
proof -
  let ?t = "\<lparr>tname = [0x4D, 0x54, 0x50], tdims = [2], ttype = 0, toffset = 0\<rparr> :: tensor"
  have "tensor_ok ?t" by (simp add: tensor_ok_def max_str_def)
  moreover have "mtp_name (utf8_lossy (tname ?t))" by code_simp
  ultimately show ?thesis
    using has_mtp_tensors_exact [of "[]" "[?t]" 3 "[]"] by simp
qed

lemma le_bytes_ne: "0 < k \<Longrightarrow> le_bytes k n \<noteq> []"
  by (cases k) simp_all

lemma enc_ne: "well_formed d x \<Longrightarrow> enc x \<noteq> []"
  by (cases x) (auto simp: le_bytes_ne fix_len_def split: if_splits)

lemma rd_val_consumes: "rd_val d t r = Inr (v, r') \<Longrightarrow> length r' < length r"
  by (auto simp: rd_val_iff dest!: enc_ne)

lemma rd_times_consumes:
  assumes "\<And>r v r'. f r = Inr (v, r') \<Longrightarrow> length r' < length r"
  shows "rd_times n f r = Inr (u, r') \<Longrightarrow> n + length r' \<le> length r"
proof (induction n arbitrary: r)
  case 0
  then show ?case by (simp add: rd_times_0)
next
  case (Suc n)
  then obtain v r1 where "f r = Inr (v, r1)" "rd_times n f r1 = Inr (u, r')"
    by (auto simp: rd_times_Suc try_then_Inr)
  with Suc.IH [of r1] assms [of r v r1] show ?case by simp
qed

lemma rd_times_enough:
  assumes "\<And>r v r'. f r = Inr (v, r') \<Longrightarrow> length r' < length r"
  shows "length r < m \<Longrightarrow> length r < n \<Longrightarrow> rd_times m f r = rd_times n f r"
proof (induction "length r" arbitrary: r m n rule: less_induct)
  case less
  obtain m' n' where mn: "m = Suc m'" "n = Suc n'" using less.prems by (cases m; cases n) auto
  show ?case
  proof (cases "f r")
    case (Inl e)
    then show ?thesis by (simp add: mn rd_times_Suc)
  next
    case (Inr p)
    then obtain v r1 where p: "f r = Inr (v, r1)" by (cases p) simp
    have l: "length r1 < length r" by (rule assms [OF p])
    have "length r1 < m'" "length r1 < n'" using l less.prems mn by simp_all
    then have "rd_times m' f r1 = rd_times n' f r1" by (rule less.hyps [OF l])
    then show ?thesis by (simp add: mn p rd_times_Suc)
  qed
qed

text \<open>
  Reading terminates early on a hostile count: every value takes at least one byte, so a
  successful read leaves fewer bytes, and an array loop over any count makes at most one step more
  than there are bytes left, with the same result; a count beyond the bytes left is always an error.
\<close>

theorem rd_val_bounded:
  "(rd_val d t r = Inr (v, r') \<longrightarrow> length r' < length r) \<and>
   rd_times n (rd_val d t) r = rd_times (min n (length r + 1)) (rd_val d t) r \<and>
   (length r < n \<longrightarrow> \<not> is_ok (rd_times n (rd_val d t) r))"
proof (intro conjI impI)
  show "rd_val d t r = Inr (v, r') \<Longrightarrow> length r' < length r" by (rule rd_val_consumes)
  show "rd_times n (rd_val d t) r = rd_times (min n (length r + 1)) (rd_val d t) r"
    using rd_times_enough [of "rd_val d t" r n "length r + 1"] rd_val_consumes
    by (cases "n \<le> length r") (auto simp: min_def)
  show "\<not> is_ok (rd_times n (rd_val d t) r)" if "length r < n"
    using rd_times_consumes [of "rd_val d t" n r] rd_val_consumes that
    by (cases "rd_times n (rd_val d t) r") fastforce+
qed

lemma rd_val_bounded_witness:
  "\<not> is_ok (rd_times (2 ^ 64 - 1) (rd_val 0 0) [1, 2, 3])"
proof -
  have "length ([1, 2, 3] :: bytes) < 2 ^ 64 - 1" by simp
  with rd_val_bounded [of 0 0 "[1, 2, 3]" None "[]" "2 ^ 64 - 1"] show ?thesis by blast
qed

end
