(* ===== verification/Mem.thy ===== *)
theory Mem
  imports Pathlib
begin

text \<open>
  Memory-fit arithmetic (src/src/mem.rs). The \<open>f64\<close> steps of the code are non-negative and far from
  the ends of the exponent range, so a float is modelled by its exact value and each operation by the
  exact result rounded to 53 significant bits, ties to even. The bytes per cache element are
  multiples of \<open>1/32\<close>, and scaling by a power of two does not change the rounding, so every product
  is kept as a natural number of \<open>1/32\<close> bytes. Integers have the code's widths: \<open>u64\<close> saturates where
  the code says so and wraps where it casts.
\<close>

section \<open>Rounding to 53 bits\<close>

fun bitlen :: "nat \<Rightarrow> nat" where
  "bitlen n = (if n = 0 then 0 else Suc (bitlen (n div 2)))"

declare bitlen.simps [simp del]

text \<open>Division rounded to the nearest integer, ties to even.\<close>

definition rdiv :: "nat \<Rightarrow> nat \<Rightarrow> nat" where
  "rdiv a b =
     (let q = a div b; r = a mod b in
      if 2 * r < b \<or> (2 * r = b \<and> even q) then q else q + 1)"

definition fl53 :: "nat \<Rightarrow> nat" where
  "fl53 n = (if bitlen n \<le> 53 then n else rdiv n (2 ^ (bitlen n - 53)) * 2 ^ (bitlen n - 53))"

text \<open>
  The integer part of the rounded quotient \<open>p / q\<close>: \<open>e\<close> is the binary exponent of the exact quotient,
  and the rounded one is a multiple of \<open>2 ^ (e - 52)\<close>.
\<close>

definition quot_exp :: "nat \<Rightarrow> nat \<Rightarrow> int" where
  "quot_exp p q =
     (let t = int (bitlen p) - int (bitlen q) in
      if q * 2 ^ nat t \<le> p * 2 ^ nat (- t) then t else t - 1)"

definition fl_quot :: "nat \<Rightarrow> nat \<Rightarrow> nat" where
  "fl_quot p q =
     (let u = quot_exp p q - 52 in
      if 0 \<le> u then rdiv p (q * 2 ^ nat u) * 2 ^ nat u
      else rdiv (p * 2 ^ nat (- u)) q div 2 ^ nat (- u))"

section \<open>The cache\<close>

record dims =
  n_layers :: u64
  n_head :: u64
  n_head_kv :: u64
  head_dim :: u64
  ctx_train :: "u64 option"

text \<open>Bytes per cache element, in 1/32 bytes.\<close>

definition bytes_per_elem :: "string \<Rightarrow> nat" where
  "bytes_per_elem kv =
     (let k = lower kv in
      if k = ''f32'' then 128
      else if k = ''f16'' \<or> k = ''bf16'' then 64
      else if k = ''q8_0'' then 34
      else if k = ''q8_1'' then 36
      else if k = ''q5_1'' then 24
      else if k = ''q5_0'' then 22
      else if k = ''q4_1'' then 20
      else if k = ''q4_0'' then 18
      else 64)"

definition sat_mul128 :: "nat \<Rightarrow> nat \<Rightarrow> nat" where
  "sat_mul128 a b = min (a * b) (2 ^ 128 - 1)"

text \<open>A float cast to \<open>u64\<close> saturates.\<close>

definition to_u64 :: "nat \<Rightarrow> u64" where
  "to_u64 n = (if n < 2 ^ 64 then of_nat n else - 1)"

definition kv_bytes :: "dims \<Rightarrow> u64 \<Rightarrow> nat \<Rightarrow> u64" where
  "kv_bytes d ctx per =
     (let elems = sat_mul128 (sat_mul128 (sat_mul128 (sat_mul128 2 (unat (n_layers d)))
                    (unat (n_head_kv d))) (unat (head_dim d))) (unat ctx)
      in to_u64 (fl53 (fl53 elems * per) div 32))"

definition runtime_reserve :: u64 where
  "runtime_reserve = 2 ^ 30"

definition kv_bytes_per_token :: "dims \<Rightarrow> nat \<Rightarrow> nat" where
  "kv_bytes_per_token d per =
     fl53 (fl53 (fl53 (fl53 (2 * fl53 (unat (n_layers d))) * fl53 (unat (n_head_kv d))) * fl53 (unat (head_dim d))) * per)"

text \<open>\<open>max_ctx\<close>; the budget is an \<open>i64\<close>, kept as a word whose value is \<open>sint\<close>.\<close>

definition max_ctx :: "dims \<Rightarrow> u64 \<Rightarrow> string \<Rightarrow> u64" where
  "max_ctx d budget kv =
     (if sint budget \<le> 0 then 0
      else let per_token = kv_bytes_per_token d (bytes_per_elem kv) in
        if per_token = 0 then 0
        else let ctx = to_u64 (fl_quot (32 * fl53 (nat (sint budget))) per_token) in
          (case ctx_train d of
             Some t \<Rightarrow> if t > 0 then min ctx t else ctx
           | None \<Rightarrow> ctx))"

section \<open>The budget\<close>

record uma =
  vram_total :: u64
  gtt_total :: u64
  vram_used :: u64
  gtt_used :: u64
  sys_total :: u64
  sys_available :: u64

definition total :: "uma \<Rightarrow> u64" where
  "total b = sat_add (vram_total b) (gtt_total b)"

definition physical_total :: "uma \<Rightarrow> u64" where
  "physical_total b = (if sys_total b > 0 then sat_add (sys_total b) (vram_total b) else total b)"

definition usable :: "uma \<Rightarrow> u64" where
  "usable b =
     (if sys_total b > 0 then sat_sub (sat_add (sys_available b) (gtt_used b)) runtime_reserve
      else total b)"

text \<open>\<open>fs\<close> is the content of the readable files.\<close>

definition read_u64 :: "(string \<Rightarrow> string option) \<Rightarrow> string \<Rightarrow> u64 option" where
  "read_u64 fs p =
     (case fs p of None \<Rightarrow> None | Some t \<Rightarrow> map_option of_nat (parse_uint max_u64 (trim t)))"

definition meminfo_kb :: "string \<Rightarrow> u64 option" where
  "meminfo_kb rest =
     (case split_ws rest of [] \<Rightarrow> None | v # _ \<Rightarrow> map_option of_nat (parse_uint max_u64 v))"

fun meminfo_lines :: "string list \<Rightarrow> u64 option \<Rightarrow> u64 option \<Rightarrow> u64 option \<times> u64 option" where
  "meminfo_lines [] tot av = (tot, av)"
| "meminfo_lines (l # ls) tot av =
     (case split_once CHR '':'' l of
        None \<Rightarrow> meminfo_lines ls tot av
      | Some (key, rest) \<Rightarrow>
          (let b = map_option (\<lambda>k. k * 1024) (meminfo_kb rest) in
           if key = ''MemTotal'' then meminfo_lines ls b av
           else if key = ''MemAvailable'' then meminfo_lines ls tot b
           else meminfo_lines ls tot av))"

definition read_meminfo_at :: "(string \<Rightarrow> string option) \<Rightarrow> string \<Rightarrow> (u64 \<times> u64) option" where
  "read_meminfo_at fs p =
     (case fs p of
        None \<Rightarrow> None
      | Some t \<Rightarrow>
          (case meminfo_lines (lines t) None None of
             (Some a, Some b) \<Rightarrow> Some (a, b)
           | _ \<Rightarrow> None))"

definition or_zero :: "u64 option \<Rightarrow> u64" where
  "or_zero x = (case x of None \<Rightarrow> 0 | Some v \<Rightarrow> v)"

definition read_uma_at :: "(string \<Rightarrow> string option) \<Rightarrow> string \<Rightarrow> uma option" where
  "read_uma_at fs dev =
     (case read_u64 fs (path_join dev ''mem_info_vram_total'') of
        None \<Rightarrow> None
      | Some v \<Rightarrow> Some
          \<lparr>vram_total = v,
           gtt_total = or_zero (read_u64 fs (path_join dev ''mem_info_gtt_total'')),
           vram_used = or_zero (read_u64 fs (path_join dev ''mem_info_vram_used'')),
           gtt_used = or_zero (read_u64 fs (path_join dev ''mem_info_gtt_used'')),
           sys_total = 0, sys_available = 0\<rparr>)"

text \<open>\<open>cards\<close> are the names of the entries of \<open>/sys/class/drm\<close>, if it can be listed.\<close>

definition card_name :: "string \<Rightarrow> bool" where
  "card_name n \<longleftrightarrow> starts_with n ''card'' \<and> CHR ''-'' \<notin> set n"

definition read_uma :: "(string \<Rightarrow> string option) \<Rightarrow> string list option \<Rightarrow> uma option" where
  "read_uma fs cards =
     (case cards of
        None \<Rightarrow> None
      | Some ns \<Rightarrow>
          (case find_map (\<lambda>n. read_uma_at fs (path_join (path_join ''/sys/class/drm'' n) ''device''))
                  (sort (filter card_name ns)) of
             None \<Rightarrow> None
           | Some b \<Rightarrow>
               (case read_meminfo_at fs ''/proc/meminfo'' of
                  None \<Rightarrow> Some b
                | Some (t, a) \<Rightarrow> Some (b\<lparr>sys_total := t, sys_available := a\<rparr>))))"

section \<open>The estimate\<close>

record estimate =
  e_weights :: u64
  e_kv :: u64
  e_working :: u64
  e_ctx :: u64
  e_kv_quant :: string
  e_dims :: "dims option"
  e_budget :: "uma option"
  e_headroom :: "u64 option"
  e_max_ctx :: "u64 option"

definition estimate :: "u64 \<Rightarrow> dims option \<Rightarrow> u64 \<Rightarrow> string \<Rightarrow> uma option \<Rightarrow> estimate" where
  "estimate weights d ctx kv b =
     (let k = (case d of None \<Rightarrow> 0 | Some d \<Rightarrow> kv_bytes d ctx (bytes_per_elem kv));
          working = sat_add weights k
      in \<lparr>e_weights = weights, e_kv = k, e_working = working, e_ctx = ctx, e_kv_quant = kv,
          e_dims = d, e_budget = b,
          e_headroom = map_option (\<lambda>b. usable b - working) b,
          e_max_ctx = (case (d, b) of
             (Some d, Some b) \<Rightarrow> Some (max_ctx d (usable b - weights) kv)
           | _ \<Rightarrow> None)\<rparr>)"

text \<open>The serving context and cache type named by a flags string; the last occurrence counts.\<close>

definition ctx_flag :: "string \<Rightarrow> bool" where
  "ctx_flag t \<longleftrightarrow> t = ''-c'' \<or> t = ''--ctx-size''"

definition kv_flag :: "string \<Rightarrow> bool" where
  "kv_flag t \<longleftrightarrow> t = ''-ctk'' \<or> t = ''--cache-type-k''"

definition next_tok :: "string list \<Rightarrow> string option" where
  "next_tok ts = (case ts of [] \<Rightarrow> None | v # _ \<Rightarrow> Some v)"

definition opt_u64 :: "string option \<Rightarrow> u64 option" where
  "opt_u64 v = (case v of None \<Rightarrow> None | Some v \<Rightarrow> map_option of_nat (parse_uint max_u64 v))"

fun flag_scan :: "string list \<Rightarrow> u64 option \<Rightarrow> string option \<Rightarrow> u64 option \<times> string option" where
  "flag_scan [] ctx kv = (ctx, kv)"
| "flag_scan (t # ts) ctx kv =
     (if ctx_flag t then flag_scan ts (opt_u64 (next_tok ts)) kv
      else if kv_flag t then flag_scan ts ctx (next_tok ts)
      else flag_scan ts ctx kv)"

definition ctx_kv_from_flags :: "string \<Rightarrow> u64 option \<times> string option" where
  "ctx_kv_from_flags s = flag_scan (split_ws s) None None"

section \<open>Rounding facts\<close>

lemma bitlen_bounds: "0 < n \<Longrightarrow> 2 ^ (bitlen n - 1) \<le> n \<and> n < 2 ^ bitlen n \<and> 0 < bitlen n"
proof (induction n rule: bitlen.induct)
  case (1 n)
  show ?case
  proof (cases "n div 2 = 0")
    case True
    with 1 have "n = 1" by simp
    then show ?thesis by (simp add: bitlen.simps)
  next
    case False
    let ?k = "bitlen (n div 2)"
    from 1 False have ih: "2 ^ (?k - 1) \<le> n div 2" "n div 2 < 2 ^ ?k" "0 < ?k" by simp_all
    have b: "bitlen n = Suc ?k" using 1 by (subst bitlen.simps) simp
    have "(2::nat) ^ ?k = 2 * 2 ^ (?k - 1)" using ih(3) by (cases ?k) simp_all
    then show ?thesis using ih b by simp linarith
  qed
qed

lemma bitlen_le: "n < 2 ^ k \<Longrightarrow> bitlen n \<le> k"
proof (cases "n = 0")
  case False
  assume "n < 2 ^ k"
  with bitlen_bounds [of n] False have "(2::nat) ^ (bitlen n - 1) < 2 ^ k" by linarith
  then have "bitlen n - 1 < k" by simp
  then show ?thesis by simp
qed (simp add: bitlen.simps)

lemma fl53_exact: "n < 2 ^ 53 \<Longrightarrow> fl53 n = n"
  by (simp add: fl53_def bitlen_le)

lemma rdiv_ge: "a div b \<le> rdiv a b"
  by (simp add: rdiv_def Let_def)

text \<open>The rounded quotient stays below an integer that the exact one misses by more than a half.\<close>

lemma rdiv_less:
  assumes "0 < b" and "2 * a + b < 2 * (k * b)"
  shows "rdiv a b < k"
proof -
  let ?q = "a div b" and ?r = "a mod b"
  have a: "a = b * ?q + ?r" by simp
  have "?q < k"
  proof (rule ccontr)
    assume "\<not> ?q < k"
    then have "k * b \<le> ?q * b" by (intro mult_right_mono) simp_all
    then show False using assms(2) div_times_less_eq_dividend [of a b] by linarith
  qed
  moreover have "?q + 1 = k \<Longrightarrow> 2 * ?r < b"
  proof -
    assume "?q + 1 = k"
    then have "k * b = b * ?q + b" by (auto simp: algebra_simps)
    with a assms(2) show "2 * ?r < b" by linarith
  qed
  ultimately show ?thesis by (cases "?q + 1 = k") (auto simp: rdiv_def Let_def)
qed

lemma quot_exp_bounds:
  assumes p: "0 < p" and q: "0 < q"
  shows "q * 2 ^ nat (quot_exp p q) \<le> p * 2 ^ nat (- quot_exp p q)"
    and "p * 2 ^ nat (- quot_exp p q) < 2 * (q * 2 ^ nat (quot_exp p q))"
proof -
  let ?a = "bitlen p" and ?b = "bitlen q"
  note P = bitlen_bounds [OF p] and Q = bitlen_bounds [OF q]
  have P2: "2 ^ ?a \<le> 2 * p" using P by (cases ?a) simp_all
  have Q2: "2 ^ ?b \<le> 2 * q" using Q by (cases ?b) simp_all
  have "q * 2 ^ nat (quot_exp p q) \<le> p * 2 ^ nat (- quot_exp p q) \<and>
      p * 2 ^ nat (- quot_exp p q) < 2 * (q * 2 ^ nat (quot_exp p q))"
  proof (cases "?b \<le> ?a")
    case True
    then obtain k where k: "?a = ?b + k" using le_Suc_ex by blast
    have e: "quot_exp p q = (if q * 2 ^ k \<le> p then int k else int k - 1)"
      by (simp add: quot_exp_def k)
    have up: "p < 2 * q * 2 ^ k"
    proof -
      have "p < 2 ^ ?b * 2 ^ k" using P by (simp add: k power_add)
      also have "\<dots> \<le> 2 * q * 2 ^ k" using Q2 by (rule mult_right_mono) simp
      finally show ?thesis .
    qed
    have lo: "q * 2 ^ k < 2 * p"
    proof -
      have "q * 2 ^ k < 2 ^ ?b * 2 ^ k" using Q by simp
      also have "\<dots> = 2 ^ ?a" by (simp add: k power_add)
      finally show ?thesis using P2 by linarith
    qed
    show ?thesis
    proof (cases "q * 2 ^ k \<le> p")
      case True
      with e up show ?thesis by simp
    next
      case False
      with e lo show ?thesis
      proof (cases k)
        case (Suc j)
        then have "nat (int k - 1) = j" "nat (1 - int k) = 0" by simp_all
        with e lo False Suc show ?thesis by simp
      qed simp
    qed
  next
    case False
    then obtain k where k: "?b = ?a + k" using le_Suc_ex nat_le_linear by blast
    have e: "quot_exp p q = (if q \<le> p * 2 ^ k then - int k else - int k - 1)"
      using False by (simp add: quot_exp_def k)
    have up: "p * 2 ^ k < 2 * q"
    proof -
      have "p * 2 ^ k < 2 ^ ?a * 2 ^ k" using P by simp
      also have "\<dots> = 2 ^ ?b" by (simp add: k power_add)
      finally show ?thesis using Q2 by linarith
    qed
    have lo: "q < 2 * p * 2 ^ k"
    proof -
      have "q < 2 ^ ?a * 2 ^ k" using Q by (simp add: k power_add)
      also have "\<dots> \<le> 2 * p * 2 ^ k" using P2 by (rule mult_right_mono) simp
      finally show ?thesis .
    qed
    have n: "nat (1 + int k) = Suc k" by simp
    show ?thesis using e up lo by (auto simp: n)
  qed
  then show "q * 2 ^ nat (quot_exp p q) \<le> p * 2 ^ nat (- quot_exp p q)"
    and "p * 2 ^ nat (- quot_exp p q) < 2 * (q * 2 ^ nat (quot_exp p q))" by simp_all
qed

text \<open>A quotient of a numerator below \<open>2 ^ 53\<close> is truncated exactly, in spite of the rounding.\<close>

lemma fl_quot_exact:
  assumes "p < 2 ^ 53" and q: "0 < q"
  shows "fl_quot p q = p div q"
proof (cases "p = 0")
  case True
  then show ?thesis using q by (auto simp: fl_quot_def rdiv_def Let_def)
next
  case False
  then have p: "0 < p" by simp
  define e where "e = quot_exp p q"
  note B = quot_exp_bounds(1) [OF p q, folded e_def]
  have "e < 53"
  proof (rule ccontr)
    assume "\<not> e < 53"
    then have "53 \<le> nat e" and e0: "nat (- e) = 0" by simp_all
    then have "(2::nat) ^ 53 \<le> 2 ^ nat e" by (intro power_increasing) simp_all
    moreover have "2 ^ nat e \<le> q * 2 ^ nat e" using q by simp
    moreover have "q * 2 ^ nat e \<le> p" using B e0 by simp
    ultimately show False using assms(1) by linarith
  qed
  show ?thesis
  proof (cases "e = 52")
    case True
    have q1: "q = 1"
    proof (rule ccontr)
      assume "q \<noteq> 1"
      with q have "2 \<le> q" by simp
      then have "2 * 2 ^ 52 \<le> q * 2 ^ 52" by (rule mult_right_mono) simp
      with B True assms(1) show False by simp
    qed
    with True have "quot_exp p 1 = 52" by (simp add: e_def)
    then show ?thesis by (simp add: fl_quot_def q1 Let_def rdiv_def)
  next
    case False
    with \<open>e < 53\<close> have u: "e - 52 < 0" by simp
    define s where "s = nat (52 - e)"
    have qs: "q < 2 * 2 ^ s"
    proof (cases "0 \<le> e")
      case True
      then have s: "53 = Suc s + nat e" using u by (simp add: s_def)
      have "q * 2 ^ nat e < 2 ^ 53" using B True assms(1) by simp
      also have "(2::nat) ^ 53 = 2 ^ Suc s * 2 ^ nat e" by (subst s) (simp only: power_add)
      finally show ?thesis by simp
    next
      case False
      then have s: "Suc s = 53 + nat (- e)" by (simp add: s_def)
      have "q \<le> p * 2 ^ nat (- e)" using B False by simp
      also have "\<dots> < 2 ^ 53 * 2 ^ nat (- e)" using assms(1) by simp
      also have "\<dots> = 2 ^ Suc s" by (simp only: s power_add)
      finally show ?thesis by simp
    qed
    let ?Q = "p div q"
    have "p < (?Q + 1) * q" using q by (simp add: dividend_less_div_times)
    then have "(p + 1) * 2 ^ s \<le> (?Q + 1) * q * 2 ^ s" by (intro mult_right_mono) simp_all
    then have "2 * (p * 2 ^ s) + q < 2 * (((?Q + 1) * 2 ^ s) * q)"
      using qs by (simp add: algebra_simps)
    then have hi: "rdiv (p * 2 ^ s) q < (?Q + 1) * 2 ^ s" by (rule rdiv_less [OF q])
    have "?Q * 2 ^ s * q \<le> p * 2 ^ s"
      using div_times_less_eq_dividend [of p q] by (simp add: algebra_simps)
    then have "?Q * 2 ^ s \<le> p * 2 ^ s div q" using q by (simp add: less_eq_div_iff_mult_less_eq)
    then have lo: "?Q * 2 ^ s \<le> rdiv (p * 2 ^ s) q" using rdiv_ge le_trans by blast
    have "rdiv (p * 2 ^ s) q div 2 ^ s = ?Q"
    proof (rule antisym)
      show "rdiv (p * 2 ^ s) q div 2 ^ s \<le> ?Q"
        using less_mult_imp_div_less [OF hi] by simp
      show "?Q \<le> rdiv (p * 2 ^ s) q div 2 ^ s"
        using lo by (simp add: less_eq_div_iff_mult_less_eq)
    qed
    with u show ?thesis by (simp add: fl_quot_def e_def [symmetric] Let_def s_def)
  qed
qed


section \<open>Properties\<close>

text \<open>The exact bytes of cache per token, in 1/32 bytes.\<close>

definition per_token32 :: "dims \<Rightarrow> string \<Rightarrow> nat" where
  "per_token32 d kv =
     2 * unat (n_layers d) * unat (n_head_kv d) * unat (head_dim d) * bytes_per_elem kv"

lemma bytes_per_elem_pos: "0 < bytes_per_elem kv"
  by (simp add: bytes_per_elem_def Let_def)

lemma le_factor: "0 < a * b \<Longrightarrow> a \<le> a * b" for a b :: nat
  by simp

lemma kv_bytes_per_token_exact:
  assumes "0 < per_token32 d kv" and "per_token32 d kv < 2 ^ 53"
  shows "kv_bytes_per_token d (bytes_per_elem kv) = per_token32 d kv"
proof -
  let ?L = "unat (n_layers d)" and ?K = "unat (n_head_kv d)" and ?H = "unat (head_dim d)"
    and ?p = "bytes_per_elem kv"
  have pos: "0 < ?L" "0 < ?K" "0 < ?H" "0 < ?p" using assms(1) by (simp_all add: per_token32_def)
  have b4: "2 * ?L * ?K * ?H * ?p < 2 ^ 53" using assms(2) by (simp add: per_token32_def)
  have "2 * ?L * ?K * ?H \<le> 2 * ?L * ?K * ?H * ?p" using pos by (intro le_factor) simp
  then have b3: "2 * ?L * ?K * ?H < 2 ^ 53" using b4 by linarith
  have "2 * ?L * ?K \<le> 2 * ?L * ?K * ?H" using pos by (intro le_factor) simp
  then have b2: "2 * ?L * ?K < 2 ^ 53" using b3 by linarith
  have "2 * ?L \<le> 2 * ?L * ?K" using pos by (intro le_factor) simp
  then have b1: "2 * ?L < 2 ^ 53" using b2 by linarith
  have "?K \<le> 2 * ?L * ?K" "?H \<le> 2 * ?L * ?K * ?H" using pos by simp_all
  then have "?L < 2 ^ 53" "?K < 2 ^ 53" "?H < 2 ^ 53" using b1 b2 b3 by linarith+
  with b1 b2 b3 b4 show ?thesis
    by (simp only: kv_bytes_per_token_def fl53_exact per_token32_def)
qed

text \<open>Saturating at every step is saturating once.\<close>

lemma min_mult_sat: "min (min x m * c) m = min (x * c) m" for x m c :: nat
proof (cases "x \<le> m \<or> c = 0")
  case False
  then have "m < x" "1 \<le> c" by simp_all
  then have "m * 1 \<le> m * c" by (intro mult_left_mono) simp_all
  moreover have "m * c \<le> x * c" using \<open>m < x\<close> by (intro mult_right_mono) simp_all
  ultimately have "m \<le> m * c" "m \<le> x * c" by linarith+
  moreover have "min x m = m" using \<open>m < x\<close> by simp
  ultimately show ?thesis by (simp only: min.absorb2)
qed (auto simp: min_def)

lemma sat_elems:
  "sat_mul128 (sat_mul128 (sat_mul128 (sat_mul128 2 a) b) c) d = min (2 * a * b * c * d) (2 ^ 128 - 1)"
  unfolding sat_mul128_def by (simp only: min_mult_sat)

lemma kv_bytes_exact:
  assumes "per_token32 d kv * unat ctx < 2 ^ 53"
  shows "unat (kv_bytes d ctx (bytes_per_elem kv)) = per_token32 d kv * unat ctx div 32"
proof -
  let ?p = "bytes_per_elem kv"
  let ?e = "2 * unat (n_layers d) * unat (n_head_kv d) * unat (head_dim d) * unat ctx"
  have ep: "?e * ?p = per_token32 d kv * unat ctx" by (simp add: per_token32_def algebra_simps)
  have "?e \<le> ?e * ?p" using bytes_per_elem_pos [of kv] by simp
  then have e: "?e < 2 ^ 53" using assms ep by linarith
  moreover have "(2::nat) ^ 53 \<le> 2 ^ 128 - 1" by simp
  ultimately have "?e \<le> 2 ^ 128 - 1" by linarith
  then have m: "min ?e (2 ^ 128 - 1) = ?e" by (rule min.absorb1)
  have "fl53 (fl53 ?e * ?p) = per_token32 d kv * unat ctx"
    using e assms by (simp only: fl53_exact ep)
  moreover have "per_token32 d kv * unat ctx div 32 < 2 ^ 64"
    using assms by (intro le_less_trans [OF div_le_dividend]) simp
  ultimately show ?thesis
    by (simp only: kv_bytes_def Let_def sat_elems m to_u64_def if_True unat_of_nat take_bit_nat_eq_self_iff
        take_bit_nat_eq_self unsigned_of_nat of_nat_id len_of_numeral_defs) simp
qed

lemma max_ctx_value:
  assumes pos: "0 < sint budget" and t: "0 < per_token32 d kv" "per_token32 d kv < 2 ^ 53"
    and b: "32 * nat (sint budget) < 2 ^ 53"
  defines "q \<equiv> 32 * nat (sint budget) div per_token32 d kv"
  shows "unat (max_ctx d budget kv) =
    (case ctx_train d of Some c \<Rightarrow> if c > 0 then min q (unat c) else q | None \<Rightarrow> q)"
proof -
  have "nat (sint budget) < 2 ^ 53" using b by linarith
  then have f: "fl_quot (32 * fl53 (nat (sint budget))) (per_token32 d kv) = q"
    using b t by (simp only: fl53_exact fl_quot_exact q_def)
  have "q < 2 ^ 64"
    using b unfolding q_def by (intro le_less_trans [OF div_le_dividend]) simp
  then have u: "unat (to_u64 q) = q" by (simp add: to_u64_def unat_of_nat)
  have m: "unat (min x y) = min (unat x) (unat y)" for x y :: u64
    by (simp add: min_def word_le_nat_alt)
  show ?thesis
    using pos t kv_bytes_per_token_exact [OF t]
    by (simp add: max_ctx_def Let_def f u m split: option.splits)
qed

text \<open>
 C15: The context the estimate offers fits, and none larger does: as long as the cache of a token and
  the budget are small enough to be exact floats (under 2 to the 48 bytes), the cache of
  \<open>max_ctx\<close> tokens is within the budget, and one token more is beyond it or beyond the trained
  context.
\<close>

theorem max_ctx_fits_and_is_maximal:
  assumes pos: "0 < sint budget" and t: "0 < per_token32 d kv" "per_token32 d kv < 2 ^ 53"
    and b: "32 * nat (sint budget) < 2 ^ 53"
  shows "unat (kv_bytes d (max_ctx d budget kv) (bytes_per_elem kv)) \<le> nat (sint budget) \<and>
    (ctx_train d = Some c \<longrightarrow> c > 0 \<longrightarrow> max_ctx d budget kv \<le> c) \<and>
    (per_token32 d kv * (unat (max_ctx d budget kv) + 1) > 32 * nat (sint budget) \<or>
     ctx_train d = Some (max_ctx d budget kv))"
proof -
  let ?q = "32 * nat (sint budget) div per_token32 d kv"
  note v = max_ctx_value [OF pos t b]
  have le: "unat (max_ctx d budget kv) \<le> ?q"
    by (simp add: v split: option.splits)
  have "per_token32 d kv * unat (max_ctx d budget kv) \<le> per_token32 d kv * ?q"
    using le by (rule mult_left_mono) simp
  also have "\<dots> \<le> 32 * nat (sint budget)" by simp
  finally have fit: "per_token32 d kv * unat (max_ctx d budget kv) \<le> 32 * nat (sint budget)" .
  then have "unat (kv_bytes d (max_ctx d budget kv) (bytes_per_elem kv)) \<le> nat (sint budget)"
    using b by (subst kv_bytes_exact) (linarith, simp add: less_eq_div_iff_mult_less_eq)
  moreover have "max_ctx d budget kv \<le> c" if "ctx_train d = Some c" "c > 0"
    using v that by (simp add: word_le_nat_alt)
  moreover have "per_token32 d kv * (unat (max_ctx d budget kv) + 1) > 32 * nat (sint budget) \<or>
     ctx_train d = Some (max_ctx d budget kv)"
  proof (cases "unat (max_ctx d budget kv) = ?q")
    case True
    have "32 * nat (sint budget) < per_token32 d kv * (?q + 1)"
      using t(1) by (metis Suc_eq_plus1 dividend_less_div_times mult.commute mult_Suc_right add.commute)
    with True show ?thesis by simp
  next
    case False
    with v have "\<exists>c. ctx_train d = Some c \<and> unat (max_ctx d budget kv) = unat c"
      by (auto simp: min_def split: option.splits if_splits)
    then show ?thesis by (auto simp: word_unat_eq_iff)
  qed
  ultimately show ?thesis by blast
qed


definition demo_dims :: dims where
  "demo_dims = \<lparr>n_layers = 36, n_head = 32, n_head_kv = 8, head_dim = 128, ctx_train = Some 40960\<rparr>"

lemma max_ctx_fits_and_is_maximal_witness:
  "unat (kv_bytes demo_dims (max_ctx demo_dims 4294967296 ''q4_0'') 18) \<le> 4294967296"
proof -
  have p: "bytes_per_elem ''q4_0'' = 18" by code_simp
  have t: "per_token32 demo_dims ''q4_0'' = 1327104" by (simp add: per_token32_def p demo_dims_def)
  have s: "sint (4294967296 :: u64) = 4294967296" by simp
  show ?thesis
    using max_ctx_fits_and_is_maximal [of 4294967296 demo_dims "''q4_0''"] by (simp add: t s p)
qed

lemma sint_unat_diff:
  fixes a b :: u64
  assumes "unat a < 2 ^ 63" and "unat b < 2 ^ 63"
  shows "sint (a - b) = int (unat a) - int (unat b)"
proof -
  let ?x = "int (unat a) - int (unat b)"
  have "a - b = word_of_int ?x" by simp
  then have "sint (a - b) = signed_take_bit 63 ?x" by (simp only: sint_sbintrunc') simp
  also have "\<dots> = ?x"
  proof (rule signed_take_bit_int_eq_self)
    have p: "(2::int) ^ 63 = 9223372036854775808" by simp
    have "unat a < 9223372036854775808" "unat b < 9223372036854775808" using assms by simp_all
    then show "- (2 ^ 63) \<le> ?x" "?x < 2 ^ 63" unfolding p by linarith+
  qed
  finally show ?thesis .
qed

text \<open>
 C16: An estimate at the context it offers is within the budget: when the weights, the usable memory
  and the cache of a token are within the exact range, serving at a positive \<open>max_ctx\<close> leaves a
  headroom that is not negative, and the headroom is exactly usable memory less weights and cache.
\<close>

theorem estimate_offers_fitting_context:
  assumes offer: "e_max_ctx (estimate weights (Some d) ctx kv (Some b)) = Some c" and c: "0 < c"
    and u: "32 * unat (usable b) < 2 ^ 53" and w: "unat weights < 2 ^ 62"
    and t: "0 < per_token32 d kv" "per_token32 d kv < 2 ^ 53"
  shows "\<exists>h. e_headroom (estimate weights (Some d) c kv (Some b)) = Some h \<and> 0 \<le> sint h \<and>
    sint h = int (unat (usable b)) - int (unat weights + unat (kv_bytes d c (bytes_per_elem kv)))"
proof -
  let ?b = "usable b - weights" and ?k = "kv_bytes d c (bytes_per_elem kv)"
  have mc: "c = max_ctx d ?b kv" using offer by (simp add: estimate_def Let_def)
  have ub: "unat (usable b) < 2 ^ 48" using u by simp
  have sb: "sint ?b = int (unat (usable b)) - int (unat weights)"
    using ub w by (intro sint_unat_diff) (simp_all, linarith?)
  have pos: "0 < sint ?b"
    using c by (cases "0 < sint ?b") (simp_all add: mc max_ctx_def)
  have "32 * nat (sint ?b) < 2 ^ 53" using u sb by linarith
  note fit = max_ctx_fits_and_is_maximal [OF pos t this, folded mc, THEN conjunct1]
  then have k: "unat weights + unat ?k \<le> unat (usable b)" using sb pos by linarith
  then have "unat (sat_add weights ?k) = unat weights + unat ?k"
    unfolding unat_sat_add using ub by simp
  moreover from this k ub have "sint (usable b - sat_add weights ?k)
      = int (unat (usable b)) - int (unat (sat_add weights ?k))"
    by (intro sint_unat_diff) simp_all
  ultimately have h: "sint (usable b - sat_add weights ?k) = int (unat (usable b)) - int (unat weights + unat ?k)"
    by (simp only:)
  moreover have "0 \<le> int (unat (usable b)) - int (unat weights + unat ?k)" using k by linarith
  moreover have "e_headroom (estimate weights (Some d) c kv (Some b)) = Some (usable b - sat_add weights ?k)"
    by (simp add: estimate_def Let_def)
  ultimately show ?thesis by metis
qed

lemma estimate_offers_fitting_context_witness:
  "\<exists>h. e_headroom (estimate 5000000000 (Some demo_dims) 40960 ''q8_0''
     (Some \<lparr>vram_total = 0, gtt_total = 0, vram_used = 0, gtt_used = 0, sys_total = 16000000000,
       sys_available = 14000000000\<rparr>)) = Some h \<and> 0 \<le> sint h"
proof -
  let ?b = "\<lparr>vram_total = 0, gtt_total = 0, vram_used = 0, gtt_used = 0, sys_total = 16000000000,
       sys_available = 14000000000\<rparr> :: uma"
  have p: "bytes_per_elem ''q8_0'' = 34" by code_simp
  have t: "per_token32 demo_dims ''q8_0'' = 2506752" by (simp add: per_token32_def p demo_dims_def)
  have u: "usable ?b = 12926258176" by (simp add: usable_def sat_add_def sat_sub_def runtime_reserve_def)
  have s: "sint (7926258176 :: u64) = 7926258176" by simp
  have "ctx_train demo_dims = Some 40960" by (simp add: demo_dims_def)
  then have "max_ctx demo_dims (usable ?b - 5000000000) ''q8_0'' = 40960"
    using max_ctx_value [of 7926258176 demo_dims "''q8_0''"] by (simp add: u t s word_unat_eq_iff)
  then have "e_max_ctx (estimate 5000000000 (Some demo_dims) 0 ''q8_0'' (Some ?b)) = Some 40960"
    by (simp add: estimate_def Let_def)
  from estimate_offers_fitting_context [OF this] show ?thesis by (auto simp: u t)
qed

text \<open>
  The usable memory never exceeds what the kernel reports as available plus what the served model
  gives back, less the reserve, and is zero rather than negative or wrapped when that is not enough.
\<close>

theorem usable_bounds:
  assumes "sys_total b > 0"
  shows "unat (usable b) \<le> (unat (sys_available b) + unat (gtt_used b)) - 2 ^ 30 \<and>
    (unat (sys_available b) + unat (gtt_used b) \<le> 2 ^ 30 \<longrightarrow> usable b = 0) \<and>
    (unat (sys_available b) + unat (gtt_used b) < 2 ^ 64 \<longrightarrow>
       unat (usable b) = (unat (sys_available b) + unat (gtt_used b)) - 2 ^ 30)"
proof -
  have r: "unat runtime_reserve = 2 ^ 30" by (simp add: runtime_reserve_def)
  have "unat (usable b) = min (unat (sys_available b) + unat (gtt_used b)) (2 ^ 64 - 1) - 2 ^ 30"
    using assms by (simp add: usable_def unat_sat_sub unat_sat_add r)
  then show ?thesis by (auto simp: word_unat_eq_iff)
qed

lemma usable_bounds_witness:
  "unat (usable \<lparr>vram_total = 0, gtt_total = 0, vram_used = 0, gtt_used = 0, sys_total = 1,
      sys_available = 5\<rparr>) \<le> 5"
  using usable_bounds [of "\<lparr>vram_total = 0, gtt_total = 0, vram_used = 0, gtt_used = 0, sys_total = 1,
      sys_available = 5\<rparr>"] by simp

text \<open>A line without a colon changes nothing.\<close>

lemma meminfo_lines_skip:
  "split_once CHR '':'' l = None \<Longrightarrow> meminfo_lines (xs @ l # ys) a b = meminfo_lines (xs @ ys) a b"
  by (induction xs arbitrary: a b) (auto simp: Let_def split: option.splits)

lemma flag_scan_tail:
  "\<exists>a' b'. flag_scan (xs @ x # ys) a b = flag_scan (x # ys) a' b'"
proof (induction xs arbitrary: a b)
  case Nil
  then show ?case by auto
next
  case (Cons t xs)
  then show ?case by (cases "ctx_flag t"; cases "kv_flag t") auto
qed

text \<open>
  The last \<open>-c N -ctk K\<close> of a flags string is what the estimate is made for, whatever flags stand
  before it.
\<close>

theorem ctx_kv_from_flags_last:
  assumes "n \<le> max_u64" and "word_ok k" and "\<not> ctx_flag k" and "\<not> kv_flag k"
  shows "ctx_kv_from_flags (s @ '' '' @ ''-c'' @ '' '' @ show_nat n @ '' '' @ ''-ctk'' @ '' '' @ k) =
    (Some (of_nat n), Some k)"
proof -
  have wn: "word_ok (show_nat n)"
    using show_nat_digits [of n] by (auto simp: word_ok_def list_all_iff is_digit_def is_ws_def)
  have w: "word_ok ''-c''" "word_ok ''-ctk''" by code_simp+
  have sp: "split_ws (s @ '' '' @ ''-c'' @ '' '' @ show_nat n @ '' '' @ ''-ctk'' @ '' '' @ k) =
      split_ws s @ [''-c'', show_nat n, ''-ctk'', k]"
    using split_ws_append_word [OF assms(2), of "s @ '' '' @ ''-c'' @ '' '' @ show_nat n @ '' '' @ ''-ctk''"]
      split_ws_append_word [OF w(2), of "s @ '' '' @ ''-c'' @ '' '' @ show_nat n"]
      split_ws_append_word [OF wn, of "s @ '' '' @ ''-c''"] split_ws_append_word [OF w(1), of s]
    by simp
  have f: "ctx_flag ''-c''" "\<not> kv_flag ''-c''" "\<not> ctx_flag ''-ctk''" "kv_flag ''-ctk''" by code_simp+
  have d: "is_digit (hd (show_nat n))" using show_nat_digits [of n] by (cases "show_nat n") auto
  have "\<not> ctx_flag (show_nat n)" "\<not> kv_flag (show_nat n)"
    using d by (auto simp: ctx_flag_def kv_flag_def is_digit_def)
  then show ?thesis
    using flag_scan_tail [of "split_ws s" "''-c''" "[show_nat n, ''-ctk'', k]" None None] assms f
    unfolding ctx_kv_from_flags_def sp by (auto simp: next_tok_def opt_u64_def parse_show_nat)
qed

lemma ctx_kv_from_flags_last_witness:
  "ctx_kv_from_flags (''--jinja -c 4096'' @ '' '' @ ''-c'' @ '' '' @ show_nat 32768 @ '' '' @ ''-ctk'' @ '' '' @ ''q4_0'')
     = (Some 32768, Some ''q4_0'')"
proof -
  have "word_ok ''q4_0''" "\<not> ctx_flag ''q4_0''" "\<not> kv_flag ''q4_0''" by code_simp+
  with ctx_kv_from_flags_last [of 32768 "''q4_0''" "''--jinja -c 4096''"] show ?thesis by simp
qed

end
