(* ===== verification/Model.thy ===== *)
theory Model
  imports Gguf Mem
begin

text \<open>
  Model discovery (src/src/model.rs): loading one file, the dimensions for the memory estimate, and
  the sorted list of the chat models of a directory. The file system is a lookup that gives the
  length of a file and, if it can be opened, its bytes. The captures of the two regular expressions
  are parameters (the regex crate).
\<close>

record model =
  m_path :: string
  m_name :: string
  m_arch :: string
  m_params :: "string option"
  m_quant :: "string option"
  m_size :: u64
  m_ctx_max :: "u64 option"
  m_has_mtp :: bool

type_synonym fsys = "string \<Rightarrow> (u64 \<times> bytes option) option"

definition upper_char :: "char \<Rightarrow> char" where
  "upper_char c = (if 97 \<le> code c \<and> code c \<le> 122 then char_of (code c - 32) else c)"

definition param_from_name :: "(string \<Rightarrow> string option) \<Rightarrow> string \<Rightarrow> string option" where
  "param_from_name cap name = map_option (map upper_char) (cap name)"

definition quant_from_name :: "(string \<Rightarrow> string option) \<Rightarrow> string \<Rightarrow> string option" where
  "quant_from_name cap name = map_option (replace ''UD-'' []) (cap name)"

definition is_chat_model :: "string \<Rightarrow> bool" where
  "is_chat_model name =
     (let n = lower name in
      \<not> contains n ''embedding'' \<and> \<not> contains n ''embed'' \<and> \<not> contains n ''rerank'')"

definition recurrent_arch_prefixes :: "string list" where
  "recurrent_arch_prefixes =
     [''lfm2'', ''mamba'', ''rwkv'', ''arwkv'', ''jamba'', ''falcon-h1'', ''granitehybrid'',
      ''nemotron_h'', ''plamo2'', ''qwen3next'']"

definition is_recurrent_arch :: "string \<Rightarrow> bool" where
  "is_recurrent_arch arch = list_ex (\<lambda>p. starts_with (lower arch) p) recurrent_arch_prefixes"

definition meta_arch :: "meta \<Rightarrow> string option" where
  "meta_arch m = (case bt_get m ''general.architecture'' of Some (GStr s) \<Rightarrow> Some s | _ \<Rightarrow> None)"

definition name_of :: "string \<Rightarrow> string" where
  "name_of p = (case file_name p of None \<Rightarrow> [] | Some n \<Rightarrow> n)"

definition ctx_of :: "meta \<Rightarrow> string \<Rightarrow> u64 option" where
  "ctx_of m arch =
     (case bt_get m (arch @ ''.context_length'') of
        Some (GU n) \<Rightarrow> Some n
      | Some (GI n) \<Rightarrow> Some (of_int n)
      | _ \<Rightarrow> None)"

definition load_model :: "(string \<Rightarrow> string option) \<Rightarrow> (string \<Rightarrow> string option) \<Rightarrow> fsys \<Rightarrow> string
    \<Rightarrow> gguf_error + model" where
  "load_model cap_p cap_q fs path =
     (case fs path of
        None \<Rightarrow> Inl No_file
      | Some (sz, content) \<Rightarrow>
          (let name = name_of path;
               m = (case read_gguf_meta content of Inl _ \<Rightarrow> [] | Inr m \<Rightarrow> m);
               arch = (case meta_arch m of Some s \<Rightarrow> s | None \<Rightarrow> ''?'')
           in Inr \<lparr>m_path = path, m_name = name, m_arch = arch,
                   m_params = param_from_name cap_p name, m_quant = quant_from_name cap_q name,
                   m_size = sz, m_ctx_max = ctx_of m arch,
                   m_has_mtp = (meta_indicates_mtp m \<or> has_mtp_tensors content)\<rparr>))"

definition meta_u64 :: "meta \<Rightarrow> string \<Rightarrow> u64 option" where
  "meta_u64 m key =
     (case bt_get m key of
        Some (GU n) \<Rightarrow> Some n
      | Some (GI n) \<Rightarrow> if n \<ge> 0 then Some (of_int n) else None
      | _ \<Rightarrow> None)"

definition read_dims :: "bytes option \<Rightarrow> dims option" where
  "read_dims content =
     (case read_gguf_meta content of
        Inl _ \<Rightarrow> None
      | Inr m \<Rightarrow>
          (case meta_arch m of
             None \<Rightarrow> None
           | Some arch \<Rightarrow>
               (case (meta_u64 m (arch @ ''.block_count''), meta_u64 m (arch @ ''.attention.head_count''),
                      meta_u64 m (arch @ ''.embedding_length'')) of
                  (Some nl, Some nh, Some ne) \<Rightarrow>
                    if nh = 0 \<or> nl = 0 then None
                    else Some \<lparr>n_layers = nl, n_head = nh,
                      n_head_kv = (case meta_u64 m (arch @ ''.attention.head_count_kv'') of
                                     Some k \<Rightarrow> k | None \<Rightarrow> nh),
                      head_dim = (case meta_u64 m (arch @ ''.attention.key_length'') of
                                     Some k \<Rightarrow> k | None \<Rightarrow> ne div max nh 1),
                      ctx_train = meta_u64 m (arch @ ''.context_length'')\<rparr>
                | _ \<Rightarrow> None)))"

definition gguf_chat :: "string \<Rightarrow> bool" where
  "gguf_chat p \<longleftrightarrow> extension p = Some ''gguf'' \<and> is_chat_model (name_of p)"

fun load_all :: "(string \<Rightarrow> gguf_error + model) \<Rightarrow> string list \<Rightarrow> model list" where
  "load_all ld [] = []"
| "load_all ld (p # ps) =
     (if \<not> gguf_chat p then load_all ld ps
      else case ld p of Inl _ \<Rightarrow> load_all ld ps | Inr m \<Rightarrow> m # load_all ld ps)"

definition discover :: "(string \<Rightarrow> string option) \<Rightarrow> (string \<Rightarrow> string option) \<Rightarrow> fsys
    \<Rightarrow> string list option \<Rightarrow> model list" where
  "discover cap_p cap_q fs listing =
     (case listing of
        None \<Rightarrow> []
      | Some ps \<Rightarrow> sort_key m_name (load_all (load_model cap_p cap_q fs) ps))"

definition ensure_dir :: "bool \<Rightarrow> bool \<Rightarrow> bool \<Rightarrow> bool" where
  "ensure_dir path_exists path_is_dir create_works =
     (if \<not> path_exists then create_works else path_is_dir)"

section \<open>Properties\<close>

lemma load_all_set:
  "set (load_all ld ps) = {m. \<exists>p \<in> set ps. gguf_chat p \<and> ld p = Inr m}"
  by (induction ps) (auto split: sum.splits)

lemma load_model_path:
  "load_model cap_p cap_q fs p = Inr m \<Longrightarrow> m_path m = p \<and> fs p \<noteq> None"
  by (auto simp: load_model_def Let_def split: option.splits)

lemma load_model_total:
  "fs p = Some (sz, content) \<Longrightarrow> \<exists>m. load_model cap_p cap_q fs p = Inr m"
  by (simp add: load_model_def Let_def)

lemma load_model_unreadable:
  "load_model cap_p cap_q fs p = Inr m \<Longrightarrow> fs p = Some (sz, content) \<Longrightarrow>
     \<not> is_ok (read_gguf_meta content) \<Longrightarrow> m_arch m = ''?''"
  by (cases "read_gguf_meta content") (auto simp: load_model_def Let_def meta_arch_def)

text \<open>
 C14: Discovery lists the chat models of the directory sorted by name, each file once per entry:
  exactly the entries with the extension \<open>gguf\<close> whose name is not one of an embedding or
  reranking model and whose metadata can be read; a file whose header does not parse is still listed,
  with the architecture \<open>?\<close>.
\<close>

theorem discover_lists_chat_models:
  assumes "listing = Some ps"
  shows "sorted (map m_name (discover cap_p cap_q fs listing)) \<and>
    m_path ` set (discover cap_p cap_q fs listing) = {p \<in> set ps. gguf_chat p \<and> fs p \<noteq> None} \<and>
    (\<forall>m \<in> set (discover cap_p cap_q fs listing).
       load_model cap_p cap_q fs (m_path m) = Inr m \<and>
       (\<forall>sz content. fs (m_path m) = Some (sz, content) \<longrightarrow> \<not> is_ok (read_gguf_meta content) \<longrightarrow> m_arch m = ''?''))"
proof -
  let ?ld = "load_model cap_p cap_q fs"
  have s: "set (discover cap_p cap_q fs listing) = {m. \<exists>p \<in> set ps. gguf_chat p \<and> ?ld p = Inr m}"
    by (simp add: discover_def assms load_all_set)
  note p = load_model_path [of cap_p cap_q fs]
  have "m_path ` set (discover cap_p cap_q fs listing) = {p \<in> set ps. gguf_chat p \<and> fs p \<noteq> None}"
  proof (intro equalityI subsetI)
    fix p assume "p \<in> {p \<in> set ps. gguf_chat p \<and> fs p \<noteq> None}"
    then obtain sz content where f: "fs p = Some (sz, content)" "p \<in> set ps" "gguf_chat p" by auto
    from load_model_total [of fs p, OF f(1)] obtain m where "?ld p = Inr m" by blast
    moreover from this p have "m_path m = p" by blast
    ultimately show "p \<in> m_path ` set (discover cap_p cap_q fs listing)" using f unfolding s by force
  qed (auto simp: s dest!: p)
  moreover have "?ld (m_path m) = Inr m \<and>
      (\<forall>sz content. fs (m_path m) = Some (sz, content) \<longrightarrow> \<not> is_ok (read_gguf_meta content) \<longrightarrow> m_arch m = ''?'')"
    if "m \<in> set (discover cap_p cap_q fs listing)" for m
  proof -
    from that obtain q where q: "?ld q = Inr m" unfolding s by blast
    then have l: "?ld (m_path m) = Inr m" using p by blast
    show ?thesis using l load_model_unreadable [OF l] by blast
  qed
  moreover have "sorted (map m_name (discover cap_p cap_q fs listing))"
    by (simp add: discover_def assms)
  ultimately show ?thesis by blast
qed

definition demo_fs :: fsys where
  "demo_fs p = (if p = ''/m/b.gguf'' then Some (3, Some [1, 2, 3])
     else if p = ''/m/a.gguf'' then Some (0, None) else None)"

lemma discover_lists_chat_models_witness:
  "map m_name (discover (\<lambda>_. None) (\<lambda>_. None) demo_fs
     (Some [''/m/b.gguf'', ''/m/a.gguf'', ''/m/x.txt'', ''/m/e-embed.gguf''])) = [''a.gguf'', ''b.gguf'']
   \<and> sorted (map m_name (discover (\<lambda>_. None) (\<lambda>_. None) demo_fs
     (Some [''/m/b.gguf'', ''/m/a.gguf'', ''/m/x.txt'', ''/m/e-embed.gguf''])))"
proof
  show "map m_name (discover (\<lambda>_. None) (\<lambda>_. None) demo_fs
     (Some [''/m/b.gguf'', ''/m/a.gguf'', ''/m/x.txt'', ''/m/e-embed.gguf''])) = [''a.gguf'', ''b.gguf'']"
    by code_simp
  show "sorted (map m_name (discover (\<lambda>_. None) (\<lambda>_. None) demo_fs
     (Some [''/m/b.gguf'', ''/m/a.gguf'', ''/m/x.txt'', ''/m/e-embed.gguf''])))"
    using discover_lists_chat_models [OF refl] by blast
qed

text \<open>
  Dimensions read from a header are usable for the cache estimate: layers and heads are never
  zero, a missing key/value head count falls back to the heads (and so is not zero either), and a
  missing head dimension to the embedding length divided by the heads, never by zero.
\<close>

theorem read_dims_sound:
  assumes "read_dims content = Some d"
  shows "n_layers d \<noteq> 0 \<and> n_head d \<noteq> 0 \<and>
    (\<exists>m arch. read_gguf_meta content = Inr m \<and> meta_arch m = Some arch \<and>
       (meta_u64 m (arch @ ''.attention.head_count_kv'') = None \<longrightarrow> n_head_kv d = n_head d) \<and>
       (\<forall>ne. meta_u64 m (arch @ ''.embedding_length'') = Some ne \<longrightarrow>
          meta_u64 m (arch @ ''.attention.key_length'') = None \<longrightarrow>
          unat (head_dim d) = unat ne div unat (n_head d)) \<and>
       ctx_train d = meta_u64 m (arch @ ''.context_length''))"
proof -
  have mx: "max n 1 = n" if "n \<noteq> 0" for n :: u64
  proof -
    from that have "unat n \<noteq> 0" by (simp add: unat_eq_0)
    then have "1 \<le> n" by (simp add: word_le_nat_alt)
    then show ?thesis by (simp add: max_def)
  qed
  from assms obtain m arch where "read_gguf_meta content = Inr m" "meta_arch m = Some arch"
    by (auto simp: read_dims_def split: sum.splits option.splits)
  with assms show ?thesis
    by (auto simp: read_dims_def mx unat_div split: option.splits if_splits)
qed


definition demo_kv :: "string \<Rightarrow> gdata \<Rightarrow> kv" where
  "demo_kv k v = (map (\<lambda>c. of_nat (of_char c)) k, v)"

definition demo_kvs :: "kv list" where
  "demo_kvs =
     [demo_kv ''general.architecture'' (D_str (map (\<lambda>c. of_nat (of_char c)) ''g'')),
      demo_kv ''g.block_count'' (D_fix 4 [2, 0, 0, 0]),
      demo_kv ''g.attention.head_count'' (D_fix 4 [8, 0, 0, 0]),
      demo_kv ''g.embedding_length'' (D_fix 4 [0, 2, 0, 0])]"

lemma read_dims_sound_witness:
  "\<exists>d. read_dims (Some (enc_header 3 0 4 @ concat (map enc_kv demo_kvs))) = Some d \<and> n_layers d \<noteq> 0 \<and> n_head d \<noteq> 0"
proof -
  let ?m = "bt_extend [] (scalars demo_kvs)"
  have "scalars demo_kvs = [(''general.architecture'', GStr ''g''), (''g.block_count'', GU 2),
      (''g.attention.head_count'', GU 8), (''g.embedding_length'', GU 512)]"
    by code_simp
  then have g: "bt_get ?m k = map_of (rev [(''general.architecture'', GStr ''g''), (''g.block_count'', GU 2),
      (''g.attention.head_count'', GU 8), (''g.embedding_length'', GU 512)]) k" for k
    by (simp add: bt_get_extend split: option.splits)
  have "list_all kv_ok demo_kvs"
    by (simp add: demo_kvs_def demo_kv_def kv_ok_def max_str_def fix_len_def)
  then have "read_gguf_meta (Some (enc_header 3 0 4 @ concat (map enc_kv demo_kvs))) = Inr ?m"
    using read_gguf_meta_enc [of demo_kvs 3 0 "[]"] by (simp add: demo_kvs_def)
  then have "read_dims (Some (enc_header 3 0 4 @ concat (map enc_kv demo_kvs))) =
      Some \<lparr>n_layers = 2, n_head = 8, n_head_kv = 8, head_dim = 64, ctx_train = None\<rparr>"
    by (simp add: read_dims_def meta_arch_def meta_u64_def g)
  from read_dims_sound [OF this] this show ?thesis by blast
qed

end
