(* ===== verification/Lock.thy ===== *)
theory Lock
  imports Pathlib
begin

text \<open>
  Advisory locks (src/src/lock.rs). \<open>poll\<close> is the loop around \<open>flock\<close> with its deadline, in
  milliseconds; whether another process holds the lock is a function of the time. The second part is
  the system of processes that take these locks, as a step relation over the kernel's lock table,
  with mutual exclusion by invariant.
\<close>

section \<open>Lock files\<close>

record env =
  state_dir_env :: "string option"
  euid :: nat
  runtime_dir :: "string option"
  temp_dir :: string

definition nonempty :: "string option \<Rightarrow> string option" where
  "nonempty v = (case v of None \<Rightarrow> None | Some s \<Rightarrow> if s = [] then None else Some s)"

definition lock_dir :: "env \<Rightarrow> string" where
  "lock_dir e =
     (case nonempty (state_dir_env e) of
        Some d \<Rightarrow> path_join d ''locks''
      | None \<Rightarrow>
          if euid e = 0 then ''/run/llmtune''
          else (case nonempty (runtime_dir e) of
                  Some rt \<Rightarrow> path_join rt ''llmtune''
                | None \<Rightarrow> path_join (temp_dir e) (''llmtune-'' @ show_nat (euid e))))"

datatype op = Swap_op | Bench_op | Build_op

definition lock_file :: "op \<Rightarrow> string" where
  "lock_file k = (case k of Build_op \<Rightarrow> ''build.lock'' | _ \<Rightarrow> ''gpu.lock'')"

definition lock_path :: "env \<Rightarrow> op \<Rightarrow> string" where
  "lock_path e k = path_join (lock_dir e) (lock_file k)"

section \<open>Acquiring\<close>

function poll :: "(nat \<Rightarrow> bool) \<Rightarrow> nat \<Rightarrow> nat \<Rightarrow> bool \<times> nat" where
  "poll held deadline now =
     (if \<not> held now then (True, now)
      else if deadline \<le> now then (False, now)
      else poll held deadline (now + 2))"
  by pat_completeness auto
termination
  by (relation "measure (\<lambda>(held, deadline, now). deadline - now)") auto

declare poll.simps [simp del]

definition rmw_lock_timeout :: nat where
  "rmw_lock_timeout = 5000"

definition flock_ex_timeout :: "(nat \<Rightarrow> bool) \<Rightarrow> nat \<Rightarrow> nat \<Rightarrow> bool \<times> nat" where
  "flock_ex_timeout held timeout now = poll held (now + timeout) now"

datatype guard = Locked string | Unlocked

datatype busy = Busy

definition acquire :: "bool \<Rightarrow> bool \<Rightarrow> (nat \<Rightarrow> bool) \<Rightarrow> nat \<Rightarrow> string \<Rightarrow> busy + guard" where
  "acquire dir_ok file_ok held now path =
     (if \<not> dir_ok \<or> \<not> file_ok then Inr Unlocked
      else if fst (poll held (now + 500) now) then Inr (Locked path) else Inl Busy)"

section \<open>Processes\<close>

datatype pstate =
    Idle
  | Waiting op nat
  | Running op bool

record sys =
  clock :: nat
  procs :: "nat \<Rightarrow> pstate"
  table :: "string \<Rightarrow> nat option"

definition release :: "nat \<Rightarrow> (string \<Rightarrow> nat option) \<Rightarrow> string \<Rightarrow> nat option" where
  "release p t = (\<lambda>f. if t f = Some p then None else t f)"

inductive step :: "(nat \<Rightarrow> env) \<Rightarrow> sys \<Rightarrow> sys \<Rightarrow> bool" for env_of :: "nat \<Rightarrow> env" where
  open_ok: "procs s p = Idle \<Longrightarrow>
    step env_of s (s\<lparr>procs := (procs s)(p := Waiting k (clock s + 500))\<rparr>)"
| open_fails: "procs s p = Idle \<Longrightarrow> step env_of s (s\<lparr>procs := (procs s)(p := Running k False)\<rparr>)"
| taken: "procs s p = Waiting k d \<Longrightarrow> table s (lock_path (env_of p) k) = None \<Longrightarrow>
    step env_of s (s\<lparr>procs := (procs s)(p := Running k True),
       table := (table s)(lock_path (env_of p) k := Some p)\<rparr>)"
| wait: "procs s p = Waiting k d \<Longrightarrow> table s (lock_path (env_of p) k) \<noteq> None \<Longrightarrow> clock s < d \<Longrightarrow>
    step env_of s (s\<lparr>clock := clock s + 2\<rparr>)"
| busy: "procs s p = Waiting k d \<Longrightarrow> table s (lock_path (env_of p) k) \<noteq> None \<Longrightarrow> d \<le> clock s \<Longrightarrow>
    step env_of s (s\<lparr>procs := (procs s)(p := Idle)\<rparr>)"
| finish: "procs s p = Running k b \<Longrightarrow>
    step env_of s (s\<lparr>procs := (procs s)(p := Idle), table := release p (table s)\<rparr>)"
| crash: "step env_of s (s\<lparr>procs := (procs s)(p := Idle), table := release p (table s)\<rparr>)"
| tick: "step env_of s (s\<lparr>clock := clock s + 1\<rparr>)"

inductive_cases stepE: "step env_of s s'"

inductive reach :: "(nat \<Rightarrow> env) \<Rightarrow> sys \<Rightarrow> bool" for env_of :: "nat \<Rightarrow> env" where
  init: "(\<And>p. procs s p = Idle) \<Longrightarrow> (\<And>f. table s f = None) \<Longrightarrow> reach env_of s"
| more: "reach env_of s \<Longrightarrow> step env_of s s' \<Longrightarrow> reach env_of s'"

section \<open>The polling loop\<close>

lemma poll_result:
  "poll held deadline now = (b, t) \<Longrightarrow>
     now \<le> t \<and> t \<le> max now (deadline + 1) \<and> (b \<longleftrightarrow> \<not> held t) \<and> (\<not> b \<longrightarrow> deadline \<le> t) \<and>
     (\<forall>j. now + 2 * j < t \<longrightarrow> held (now + 2 * j))"
proof (induction held deadline now rule: poll.induct)
  case (1 held deadline now)
  show ?case
  proof (cases "held now \<and> now < deadline")
    case False
    with 1(2) show ?thesis by (subst (asm) poll.simps) (auto split: if_splits)
  next
    case True
    with 1(2) have p: "poll held deadline (now + 2) = (b, t)" by (subst (asm) poll.simps) simp
    with 1(1) True have ih: "now + 2 \<le> t" "t \<le> max (now + 2) (deadline + 1)" "b \<longleftrightarrow> \<not> held t"
      "\<not> b \<longrightarrow> deadline \<le> t" "\<forall>j. now + 2 + 2 * j < t \<longrightarrow> held (now + 2 + 2 * j)" by auto
    have "held (now + 2 * j)" if "now + 2 * j < t" for j
      using True ih(5) [rule_format, of "j - 1"] that by (cases j) auto
    with ih True show ?thesis by auto
  qed
qed

text \<open>
  C18: Taking a lock with a timeout never waits longer than the timeout and one pause: the loop ends
  at the latest one millisecond after the deadline; it fails only if the lock was held at every poll
  up to the deadline, and succeeds at the first poll that finds it free.
\<close>

theorem flock_ex_timeout_bounded:
  assumes "flock_ex_timeout held timeout now = (b, t)"
  shows "now \<le> t \<and> t \<le> now + timeout + 1 \<and> (b \<longleftrightarrow> \<not> held t) \<and>
    (\<not> b \<longrightarrow> now + timeout \<le> t) \<and> (\<forall>j. now + 2 * j < t \<longrightarrow> held (now + 2 * j))"
  using poll_result [of held "now + timeout" now b t] assms by (auto simp: flock_ex_timeout_def)

lemma flock_ex_timeout_bounded_witness:
  "snd (flock_ex_timeout (\<lambda>t. t < 7) 20 0) \<le> 21"
proof -
  obtain b t where r: "flock_ex_timeout (\<lambda>t. t < 7) 20 0 = (b, t)" by fastforce
  from flock_ex_timeout_bounded [OF r] r show ?thesis by simp
qed

section \<open>Mutual exclusion\<close>

text \<open>A lock file is held by a process that runs with it, and by no other.\<close>

definition table_ok :: "(nat \<Rightarrow> env) \<Rightarrow> sys \<Rightarrow> bool" where
  "table_ok env_of s \<longleftrightarrow>
     (\<forall>p k. procs s p = Running k True \<longrightarrow> table s (lock_path (env_of p) k) = Some p) \<and>
     (\<forall>f p. table s f = Some p \<longrightarrow> (\<exists>k. procs s p = Running k True \<and> f = lock_path (env_of p) k))"

lemma table_ok_idle:
  assumes "table_ok env_of s" and "\<And>k. procs s p \<noteq> Running k True" and "\<And>k. st \<noteq> Running k True"
  shows "table_ok env_of (s\<lparr>procs := (procs s)(p := st)\<rparr>)"
  using assms unfolding table_ok_def by (auto, metis)

lemma table_ok_release:
  assumes "table_ok env_of s"
  shows "table_ok env_of (s\<lparr>procs := (procs s)(p := Idle), table := release p (table s)\<rparr>)"
  using assms unfolding table_ok_def release_def by (auto split: if_splits)

lemma table_ok_taken:
  assumes "table_ok env_of s" and "procs s p = Waiting k d" and "table s (lock_path (env_of p) k) = None"
  shows "table_ok env_of (s\<lparr>procs := (procs s)(p := Running k True),
       table := (table s)(lock_path (env_of p) k := Some p)\<rparr>)"
  using assms unfolding table_ok_def
  by (auto split: if_splits) (metis option.distinct(1), metis pstate.distinct(5))

lemma table_ok_step:
  assumes "step env_of s s'" and "table_ok env_of s"
  shows "table_ok env_of s'"
  using assms
proof (cases rule: step.cases)
  case (taken p k d)
  then show ?thesis using assms(2) by (simp add: table_ok_taken)
next
  case (finish p k b)
  then show ?thesis using assms(2) by (simp add: table_ok_release)
next
  case (crash p)
  then show ?thesis using assms(2) by (simp add: table_ok_release)
next
  case (wait p k d)
  then show ?thesis using assms(2) by (simp add: table_ok_def)
next
  case tick
  then show ?thesis using assms(2) by (simp add: table_ok_def)
qed (use assms(2) in \<open>auto intro!: table_ok_idle\<close>)

lemma reach_table_ok: "reach env_of s \<Longrightarrow> table_ok env_of s"
proof (induction rule: reach.induct)
  case (init s)
  then show ?case by (simp add: table_ok_def)
next
  case (more s s')
  then show ?case by (blast intro: table_ok_step)
qed

definition gpu_op :: "op \<Rightarrow> bool" where
  "gpu_op k = (k \<noteq> Build_op)"

text \<open>
 C17: In every reachable state of any number of processes, crashes included, at most one process that
  holds the GPU lock of a lock directory is running: a swap excludes another swap and every bench, and
  likewise one build excludes another; and nobody holds a lock file without running.
\<close>

theorem lock_mutual_exclusion:
  assumes "reach env_of s" and "procs s p = Running k True" and "procs s q = Running j True"
    and "lock_dir (env_of p) = lock_dir (env_of q)" and "gpu_op k = gpu_op j"
  shows "p = q"
proof -
  have ok: "table_ok env_of s" by (rule reach_table_ok [OF assms(1)])
  have "lock_path (env_of p) k = lock_path (env_of q) j"
    using assms(4,5) by (cases k; cases j) (simp_all add: lock_path_def lock_file_def gpu_op_def)
  then show ?thesis using ok assms(2,3) unfolding table_ok_def by (metis option.inject)
qed


text \<open>A concrete run: process 0 is a swap that holds the GPU lock.\<close>

definition demo_env :: "nat \<Rightarrow> env" where
  "demo_env p = \<lparr>state_dir_env = None, euid = p, runtime_dir = None, temp_dir = ''/tmp''\<rparr>"

definition idle_sys :: sys where
  "idle_sys = \<lparr>clock = 0, procs = (\<lambda>_. Idle), table = (\<lambda>_. None)\<rparr>"

definition waiting :: "nat \<Rightarrow> op \<Rightarrow> sys \<Rightarrow> sys" where
  "waiting p k s = s\<lparr>procs := (procs s)(p := Waiting k (clock s + 500))\<rparr>"

definition running :: "(nat \<Rightarrow> env) \<Rightarrow> nat \<Rightarrow> op \<Rightarrow> sys \<Rightarrow> sys" where
  "running e p k s = s\<lparr>procs := (procs s)(p := Running k True),
     table := (table s)(lock_path (e p) k := Some p)\<rparr>"

lemma reach_running:
  assumes "reach e s" and "procs s p = Idle" and "table s (lock_path (e p) k) = None"
  shows "reach e (running e p k (waiting p k s))"
proof -
  have "step e s (waiting p k s)" unfolding waiting_def by (rule open_ok [OF assms(2)])
  with assms(1) have r: "reach e (waiting p k s)" by (rule reach.more)
  have "step e (waiting p k s) (running e p k (waiting p k s))"
    unfolding running_def by (rule taken [of _ _ _ "clock s + 500"]) (simp_all add: waiting_def assms(3))
  with r show ?thesis by (rule reach.more)
qed

lemma lock_mutual_exclusion_witness:
  "procs (running (\<lambda>_. demo_env 0) 0 Swap_op (waiting 0 Swap_op idle_sys)) 1 \<noteq> Running Bench_op True"
proof
  let ?e = "\<lambda>_ :: nat. demo_env 0"
  let ?s = "running ?e 0 Swap_op (waiting 0 Swap_op idle_sys)"
  assume r: "procs ?s 1 = Running Bench_op True"
  have "reach ?e idle_sys" by (rule reach.init) (simp_all add: idle_sys_def)
  then have "reach ?e ?s" by (rule reach_running) (simp_all add: idle_sys_def)
  moreover have "procs ?s 0 = Running Swap_op True" by (simp add: running_def)
  ultimately have "(0::nat) = 1" using r by (rule lock_mutual_exclusion) (simp_all add: gpu_op_def)
  then show False by simp
qed


end
