(* ===== verification/Dropin.thy ===== *)
theory Dropin
  imports Profile Model
begin

text \<open>
  The systemd drop-in of a swap (src/src/swap.rs): its environment and its text, the reader of a
  unit's own \<open>Environment=\<close> lines, and the adjustments of the launch flags to a model.
\<close>

section \<open>The environment\<close>

type_synonym envmap = "(string, string) btree"

definition merged_env :: "envmap \<Rightarrow> string option \<Rightarrow> envmap \<Rightarrow> envmap" where
  "merged_env base ld prof =
     bt_extend (case ld of None \<Rightarrow> base | Some l \<Rightarrow> bt_insert ''LD_LIBRARY_PATH'' l base) prof"

definition nl :: string where
  "nl = [CHR 0x0A]"

definition quote :: char where
  "quote = CHR 0x22"

definition env_key :: string where
  "env_key = ''Environment=''"

definition env_line :: "string \<Rightarrow> string \<Rightarrow> string" where
  "env_line k v =
     (if list_ex is_ws v then env_key @ [quote] @ k @ ''='' @ v @ [quote] @ nl
      else env_key @ k @ ''='' @ v @ nl)"

definition header_line :: string where
  "header_line = ''# AUTO-GENERATED by llmtune [model-select]. Per-arch launch. Do not edit.''"

definition service_line :: string where
  "service_line = ''[Service]''"

definition exec_line :: "string \<Rightarrow> string \<Rightarrow> string \<Rightarrow> nat \<Rightarrow> string \<Rightarrow> string" where
  "exec_line exe path host port fl =
     ''ExecStart=stdbuf -oL -eL '' @ [quote] @ exe @ [quote] @ '' -m '' @ [quote] @ path @ [quote] @
     '' --host '' @ host @ '' --port '' @ show_nat port @ '' '' @ fl @ nl"

definition workdir_line :: "string \<Rightarrow> string" where
  "workdir_line path = (case parent path of None \<Rightarrow> [] | Some d \<Rightarrow> ''WorkingDirectory='' @ d @ nl)"

definition render_dropin :: "envmap \<Rightarrow> string \<Rightarrow> string option \<Rightarrow> string \<Rightarrow> string \<Rightarrow> string \<Rightarrow> nat
    \<Rightarrow> envmap \<Rightarrow> string" where
  "render_dropin prof_env exe ld fl path host port base =
     header_line @ nl @ service_line @ nl @ env_key @ nl @
     concat (map (\<lambda>(k, v). env_line k v) (merged_env base ld prof_env)) @
     workdir_line path @ ''ExecStart='' @ nl @ exec_line exe path host port fl"

section \<open>Reading a unit's environment\<close>

text \<open>Splitting on white space with quotes: the word so far, the open quote, the words.\<close>

fun split_quoted_from :: "string \<Rightarrow> string \<Rightarrow> char option \<Rightarrow> string list" where
  "split_quoted_from [] word q = (if word = [] then [] else [word])"
| "split_quoted_from (c # cs) word q =
     (case q of
        Some d \<Rightarrow> if c = d then split_quoted_from cs word None else split_quoted_from cs (word @ [c]) q
      | None \<Rightarrow>
          if c = quote \<or> c = CHR 0x27 then split_quoted_from cs word (Some c)
          else if is_ws c then
            (if word = [] then split_quoted_from cs [] None else word # split_quoted_from cs [] None)
          else split_quoted_from cs (word @ [c]) None)"

definition split_quoted :: "string \<Rightarrow> string list" where
  "split_quoted s = split_quoted_from s [] None"

fun add_assignments :: "string list \<Rightarrow> envmap \<Rightarrow> envmap" where
  "add_assignments [] m = m"
| "add_assignments (t # ts) m =
     (case split_once CHR ''='' t of
        None \<Rightarrow> add_assignments ts m
      | Some (k, v) \<Rightarrow> add_assignments ts (if k = [] then m else bt_insert k v m))"

definition is_comment :: "string \<Rightarrow> bool" where
  "is_comment l \<longleftrightarrow> starts_with l ''#'' \<or> starts_with l '';''"

fun parse_lines :: "string list \<Rightarrow> bool \<Rightarrow> envmap \<Rightarrow> envmap" where
  "parse_lines [] in_service m = m"
| "parse_lines (raw # ls) in_service m =
     (let line = trim raw in
      if starts_with line ''['' then parse_lines ls (lower line = ''[service]'') m
      else if \<not> in_service \<or> is_comment line then parse_lines ls in_service m
      else case strip_prefix line env_key of
        None \<Rightarrow> parse_lines ls in_service m
      | Some rest \<Rightarrow>
          (let rest = trim rest in
           if rest = [] then parse_lines ls in_service []
           else parse_lines ls in_service (add_assignments (split_quoted rest) m)))"

definition parse_unit_env :: "string \<Rightarrow> envmap" where
  "parse_unit_env t = parse_lines (lines t) False []"

section \<open>Flags\<close>

definition spec_flag :: "string \<Rightarrow> bool" where
  "spec_flag t \<longleftrightarrow> t = ''--spec-type'' \<or> starts_with t ''--spec-draft''"

fun strip_spec :: "string list \<Rightarrow> string list" where
  "strip_spec [] = []"
| "strip_spec [t] = (if spec_flag t then [] else [t])"
| "strip_spec (t # n # ts) =
     (if spec_flag t then (if \<not> starts_with n ''-'' then strip_spec ts else strip_spec (n # ts))
      else t # strip_spec (n # ts))"

definition strip_mtp_flags :: "string \<Rightarrow> string" where
  "strip_mtp_flags s = join '' '' (strip_spec (split_ws s))"

definition big_ctx :: string where "big_ctx = ''-c 98304''"
definition safe_ctx :: string where "safe_ctx = ''-c 32768''"

definition needs_guard :: "string \<Rightarrow> model \<Rightarrow> bool" where
  "needs_guard fl md \<longleftrightarrow>
     (let a = lower (m_arch md) in
      starts_with a ''qwen35'' \<and> \<not> starts_with a ''qwen35moe'' \<and> m_size md > 9000000000 \<and> contains fl big_ctx)"

definition adjust_flags :: "profile \<Rightarrow> model \<Rightarrow> string" where
  "adjust_flags p md =
     (let fl = flags p; fl = (if needs_guard fl md then replace big_ctx safe_ctx fl else fl)
      in if \<not> m_has_mtp md then strip_mtp_flags fl else fl)"


section \<open>Properties\<close>

text \<open>
  In the environment of a drop-in the profile wins over the resolved library path, which wins
  over the base unit's own variables, and no variable of the base unit is lost.
\<close>

theorem merged_env_precedence:
  assumes "bt_wf base" and "bt_wf prof"
  shows "bt_wf (merged_env base ld prof) \<and>
    bt_get (merged_env base ld prof) k =
      (case bt_get prof k of
         Some v \<Rightarrow> Some v
       | None \<Rightarrow> if k = ''LD_LIBRARY_PATH'' \<and> ld \<noteq> None then ld else bt_get base k)"
  using assms by (auto simp: merged_env_def bt_simps split: option.splits)

lemma merged_env_precedence_witness:
  "bt_get (merged_env [(''LD_LIBRARY_PATH'', ''/base''), (''VK_ICD'', ''x'')] (Some ''/b'') [(''GGML'', ''1'')]) ''LD_LIBRARY_PATH''
     = Some ''/b''"
proof -
  have "bt_wf [(''LD_LIBRARY_PATH'', ''/base''), (''VK_ICD'', ''x'')]" "bt_wf [(''GGML'', ''1'')]" by code_simp+
  from merged_env_precedence [OF this, of "Some ''/b''" "''LD_LIBRARY_PATH''"] show ?thesis by simp
qed

lemma merged_env_wf: "bt_wf base \<Longrightarrow> bt_wf prof \<Longrightarrow> bt_wf (merged_env base ld prof)"
  by (auto simp: merged_env_def bt_simps split: option.splits)

text \<open>A variable that systemd's quoting can carry: no quotes, no newline, a name that is one word.\<close>

definition plain_char :: "char \<Rightarrow> bool" where
  "plain_char c \<longleftrightarrow> c \<noteq> quote \<and> c \<noteq> CHR 0x27 \<and> c \<noteq> CHR 0x0A"

definition env_ok :: "string \<times> string \<Rightarrow> bool" where
  "env_ok p \<longleftrightarrow> fst p \<noteq> [] \<and> list_all (\<lambda>c. plain_char c \<and> \<not> is_ws c \<and> c \<noteq> CHR ''='') (fst p) \<and>
     list_all plain_char (snd p)"

lemma split_quoted_word:
  "list_all (\<lambda>c. c \<noteq> quote \<and> c \<noteq> CHR 0x27 \<and> \<not> is_ws c) w \<Longrightarrow>
     split_quoted_from w acc None = (if acc @ w = [] then [] else [acc @ w])"
  by (induction w arbitrary: acc) auto

lemma split_quoted_inside:
  "list_all (\<lambda>c. c \<noteq> quote) w \<Longrightarrow>
     split_quoted_from (w @ [quote]) acc (Some quote) = (if acc @ w = [] then [] else [acc @ w])"
  by (induction w arbitrary: acc) auto

lemma split_quoted_bare:
  "list_all (\<lambda>c. plain_char c \<and> \<not> is_ws c) w \<Longrightarrow> w \<noteq> [] \<Longrightarrow> split_quoted w = [w]"
  using split_quoted_word [of w "[]"] by (auto simp: split_quoted_def plain_char_def list_all_iff)

lemma split_quoted_quoted:
  "list_all plain_char w \<Longrightarrow> w \<noteq> [] \<Longrightarrow> split_quoted (quote # w @ [quote]) = [w]"
  using split_quoted_inside [of w "[]"] by (auto simp: split_quoted_def plain_char_def list_all_iff)

text \<open>The text after \<open>Environment=\<close> of one line.\<close>

definition env_rest :: "string \<times> string \<Rightarrow> string" where
  "env_rest p =
     (let a = fst p @ CHR ''='' # snd p in if list_ex is_ws (snd p) then quote # a @ [quote] else a)"

lemma env_line_rest: "env_line k v = (env_key @ env_rest (k, v)) @ CHR 0x0A # []"
  by (simp add: env_line_def env_rest_def nl_def Let_def)

lemma is_ws_quote: "\<not> is_ws quote" "\<not> is_ws CHR ''=''"
  by (simp_all add: is_ws_def quote_def)

lemma env_rest_facts:
  assumes "env_ok p"
  shows "CHR 0x0A \<notin> set (env_rest p)" and "env_rest p \<noteq> []"
    and "\<not> is_ws (hd (env_rest p))" and "\<not> is_ws (last (env_rest p))"
    and "split_quoted (env_rest p) = [fst p @ CHR ''='' # snd p]"
proof -
  let ?a = "fst p @ CHR ''='' # snd p"
  have k: "fst p \<noteq> []" "list_all plain_char ?a"
    using assms by (auto simp: env_ok_def list_all_iff plain_char_def quote_def)
  then have n: "CHR 0x0A \<notin> set ?a" by (auto simp: list_all_iff plain_char_def)
  then show "CHR 0x0A \<notin> set (env_rest p)" by (auto simp: env_rest_def Let_def quote_def)
  show "env_rest p \<noteq> []" by (simp add: env_rest_def Let_def)
  show "\<not> is_ws (hd (env_rest p))"
    using assms k by (cases "fst p") (auto simp: env_rest_def Let_def is_ws_quote env_ok_def)
  show "\<not> is_ws (last (env_rest p))"
    by (auto simp: env_rest_def Let_def is_ws_quote list_ex_iff)
  show "split_quoted (env_rest p) = [?a]"
  proof (cases "list_ex is_ws (snd p)")
    case True
    then show ?thesis using split_quoted_quoted [OF k(2)] by (simp add: env_rest_def Let_def)
  next
    case False
    then have "list_all (\<lambda>c. plain_char c \<and> \<not> is_ws c) ?a"
      using assms k(2) is_ws_quote by (auto simp: env_ok_def list_all_iff list_ex_iff)
    with False show ?thesis using split_quoted_bare [of ?a] by (simp add: env_rest_def Let_def)
  qed
qed

lemma strip_cr_last: "l = [] \<or> \<not> is_ws (last l) \<Longrightarrow> strip_cr l = l"
  by (auto simp: strip_cr_def is_ws_def)

lemma env_key_facts:
  "CHR 0x0A \<notin> set env_key" "env_key \<noteq> []" "\<not> is_ws (hd env_key)" "\<not> is_ws (last env_key)"
  "hd env_key = CHR ''E''"
  by (simp_all add: env_key_def is_ws_def)

text \<open>Reading one rendered line inside the service section.\<close>

lemma parse_env_line:
  assumes "env_ok p"
  shows "parse_lines ((env_key @ env_rest p) # ls) True m = parse_lines ls True (bt_insert (fst p) (snd p) m)"
proof -
  note r = env_rest_facts [OF assms]
  have t: "trim (env_key @ env_rest p) = env_key @ env_rest p"
    using r env_key_facts by (intro trim_id) simp
  have h: "\<not> prefix ''['' (env_key @ x)" "\<not> is_comment (env_key @ x)" for x
    by (simp_all add: env_key_def is_comment_def)
  have tr: "trim (env_rest p) = env_rest p" using r by (intro trim_id) simp
  have "CHR ''='' \<notin> set (fst p)" "fst p \<noteq> []" using assms by (auto simp: env_ok_def list_all_iff)
  then have "add_assignments [fst p @ CHR ''='' # snd p] m = bt_insert (fst p) (snd p) m"
    by (cases p) (simp add: split_once_append)
  then show ?thesis by (simp add: t h tr r Let_def del: add_assignments.simps)
qed

lemma parse_env_lines:
  "list_all env_ok kvs \<Longrightarrow>
     parse_lines (map (\<lambda>p. env_key @ env_rest p) kvs @ ls) True m = parse_lines ls True (bt_extend m kvs)"
proof (induction kvs arbitrary: m)
  case Nil
  then show ?case by (simp add: bt_extend_def)
next
  case (Cons p kvs)
  then have "parse_lines (map (\<lambda>p. env_key @ env_rest p) (p # kvs) @ ls) True m =
      parse_lines ls True (bt_extend (bt_insert (fst p) (snd p) m) kvs)"
    by (simp add: parse_env_line del: parse_lines.simps)
  then show ?case by (cases p) (simp add: bt_extend_def)
qed

lemma lines_env:
  "list_all env_ok kvs \<Longrightarrow>
     lines (concat (map (\<lambda>(k, v). env_line k v) kvs) @ s) = map (\<lambda>p. env_key @ env_rest p) kvs @ lines s"
proof (induction kvs)
  case Nil
  then show ?case by simp
next
  case (Cons p kvs)
  note r = env_rest_facts [of p]
  have "strip_cr (env_key @ env_rest p) = env_key @ env_rest p"
    using r Cons.prems by (intro strip_cr_last) simp
  then have "lines ((env_key @ env_rest p) @ CHR 0x0A # t) = (env_key @ env_rest p) # lines t" for t
    using r Cons.prems env_key_facts by (subst lines_append) simp_all
  then show ?case using Cons by (cases p) (simp add: env_line_rest)
qed


lemma lines_other:
  assumes "CHR 0x0A \<notin> set (w @ x)" and "w \<noteq> []" and "\<not> is_ws (hd w)" and "\<not> is_ws (last w)"
    and "\<not> prefix ''['' w" and "\<And>t. \<not> prefix env_key (w @ t)"
  shows "parse_lines (lines ((w @ x) @ CHR 0x0A # s)) b m = parse_lines (lines s) b m"
proof -
  have "\<exists>y. strip_cr (w @ x) = w @ y"
  proof (cases x rule: rev_cases)
    case Nil
    then show ?thesis using assms(4) strip_cr_last [of w] by (intro exI [of _ "[]"]) simp
  next
    case (snoc ys y)
    then show ?thesis by (auto simp: strip_cr_def butlast_append)
  qed
  then obtain y where y: "strip_cr (w @ x) = w @ y" by blast
  obtain z where z: "trim (w @ y) = w @ z"
    using prefix_trim [OF assms(2-4), of y] by (auto simp: prefix_def)
  have "\<not> prefix ''['' (w @ z)" using assms(2,5) by (cases w) auto
  moreover have "strip_prefix (w @ z) env_key = None" using assms(6) by (simp add: strip_prefix_def)
  ultimately show ?thesis
    using lines_append [OF assms(1), of s] y z by (simp add: Let_def)
qed

text \<open>The three fixed lines in front of the environment.\<close>

lemma head_line: "parse_lines (lines (header_line @ CHR 0x0A # s)) False m = parse_lines (lines s) False m"
proof -
  have "lines (header_line @ CHR 0x0A # s) = header_line # lines s"
    by (subst lines_append) (simp_all add: header_line_def strip_cr_def)
  moreover have "trim header_line = header_line"
    by (rule trim_id) (simp add: header_line_def is_ws_def)
  moreover have "\<not> prefix ''['' header_line" by (simp add: header_line_def)
  ultimately show ?thesis by (simp add: Let_def)
qed

lemma service_line_step: "parse_lines (lines (service_line @ CHR 0x0A # s)) b m = parse_lines (lines s) True m"
proof -
  have "lines (service_line @ CHR 0x0A # s) = service_line # lines s"
    by (subst lines_append) (simp_all add: service_line_def strip_cr_def)
  moreover have "trim service_line = service_line"
    by (rule trim_id) (simp add: service_line_def is_ws_def)
  moreover have "prefix ''['' service_line" "lower service_line = ''[service]''" by code_simp+
  ultimately show ?thesis by (simp add: Let_def)
qed

lemma reset_line: "parse_lines (lines (env_key @ CHR 0x0A # s)) True m = parse_lines (lines s) True []"
proof -
  have "lines (env_key @ CHR 0x0A # s) = env_key # lines s"
    by (subst lines_append) (simp_all add: env_key_def strip_cr_def)
  moreover have "trim env_key = env_key" by (rule trim_id) (simp add: env_key_def is_ws_def)
  moreover have "\<not> prefix ''['' env_key" "\<not> is_comment env_key" by code_simp+
  moreover have "strip_prefix env_key env_key = Some []" using strip_prefix_append [of env_key "[]"] by simp
  ultimately show ?thesis by (simp add: Let_def trim_id)
qed

text \<open>
 C22: What a swap writes, the reader of unit files reads back: for variables that systemd's quoting
  can carry, parsing the \<open>Environment=\<close> lines of a rendered drop-in gives exactly the merged
  environment, and nothing from the working directory or the command line.
\<close>

theorem parse_render_env:
  assumes "bt_wf base" and "bt_wf prof" and "list_all env_ok (merged_env base ld prof)"
    and nl_free: "CHR 0x0A \<notin> set (exe @ path @ host @ fl)"
  shows "parse_unit_env (render_dropin prof exe ld fl path host port base) = merged_env base ld prof"
proof -
  let ?m = "merged_env base ld prof"
  let ?env = "concat (map (\<lambda>(k, v). env_line k v) ?m)"
  let ?tail = "workdir_line path @ ''ExecStart='' @ nl @ exec_line exe path host port fl"
  note o = lines_other
  have x: "parse_lines (lines ?tail) True m = m" for m
  proof -
    have "\<exists>x. exec_line exe path host port fl = (''ExecStart='' @ x) @ CHR 0x0A # [] \<and> CHR 0x0A \<notin> set x"
    proof -
      have "\<not> is_digit CHR 0x0A" by (simp add: is_digit_def)
      then have "CHR 0x0A \<notin> set (show_nat port)"
        using show_nat_digits [of port] by (auto simp: list_all_iff)
      then show ?thesis using nl_free by (auto simp: exec_line_def nl_def quote_def)
    qed
    then obtain e where e: "exec_line exe path host port fl = (''ExecStart='' @ e) @ CHR 0x0A # []"
      "CHR 0x0A \<notin> set e" by blast
    have ex: "parse_lines (lines ((''ExecStart='' @ y) @ CHR 0x0A # s)) True m = parse_lines (lines s) True m"
      if "CHR 0x0A \<notin> set y" for y s
      using that by (intro o) (auto simp: is_ws_def env_key_def)
    have "parse_lines (lines (''ExecStart='' @ nl @ exec_line exe path host port fl)) True m = m"
      using ex [of "[]" "exec_line exe path host port fl"] ex [OF e(2), of "[]"]
      by (simp add: nl_def e(1) lines_def [of "[]"])
    moreover have "parse_lines (lines (workdir_line path @ s)) True m = parse_lines (lines s) True m" for s
    proof (cases "parent path")
      case (Some d)
      have "set d \<subseteq> set path" using parent_chars [OF Some] .
      then have "CHR 0x0A \<notin> set d" using nl_free by auto
      then have "parse_lines (lines ((''WorkingDirectory='' @ d) @ CHR 0x0A # s)) True m = parse_lines (lines s) True m"
        by (intro o) (auto simp: is_ws_def env_key_def)
      then show ?thesis by (simp add: workdir_line_def Some nl_def)
    qed (simp add: workdir_line_def)
    ultimately show ?thesis by simp
  qed
  have "parse_lines (lines (header_line @ nl @ service_line @ nl @ env_key @ nl @ ?env @ ?tail)) False [] =
      parse_lines (lines (?env @ ?tail)) True []"
    by (simp only: nl_def append_Cons append_Nil head_line service_line_step reset_line)
  also have "\<dots> = parse_lines (lines ?tail) True (bt_extend [] ?m)"
    by (simp add: lines_env [OF assms(3)] parse_env_lines [OF assms(3)])
  also have "\<dots> = ?m" by (simp only: x bt_extend_self [OF merged_env_wf [OF assms(1,2)]])
  finally show ?thesis by (simp add: parse_unit_env_def render_dropin_def)
qed


lemma parse_render_env_witness:
  "parse_unit_env (render_dropin [(''GGML_A'', ''a b''), (''GGML_B'', ''1'')] ''/b/llama-server'' (Some ''/b'') ''-ngl 99''
     ''/m/x.gguf'' ''127.0.0.1'' 8080 [(''VK'', ''icd.json'')]) =
   merged_env [(''VK'', ''icd.json'')] (Some ''/b'') [(''GGML_A'', ''a b''), (''GGML_B'', ''1'')]"
proof (rule parse_render_env)
  show "bt_wf [(''VK'', ''icd.json'')]" "bt_wf [(''GGML_A'', ''a b''), (''GGML_B'', ''1'')]" by code_simp+
  show "list_all env_ok (merged_env [(''VK'', ''icd.json'')] (Some ''/b'') [(''GGML_A'', ''a b''), (''GGML_B'', ''1'')])"
    by code_simp
  show "CHR 0x0A \<notin> set (''/b/llama-server'' @ ''/m/x.gguf'' @ ''127.0.0.1'' @ ''-ngl 99'')" by simp
qed

subsection \<open>Speculative-decoding flags\<close>

lemma strip_spec_clean: "list_all (\<lambda>t. \<not> spec_flag t) (strip_spec ts)"
  by (induction ts rule: strip_spec.induct) auto

lemma strip_spec_id: "list_all (\<lambda>t. \<not> spec_flag t) ts \<Longrightarrow> strip_spec ts = ts"
  by (induction ts rule: strip_spec.induct) auto

lemma strip_spec_subseq: "subseq (strip_spec ts) ts"
proof (induction ts rule: strip_spec.induct)
  case (3 t n ts)
  then show ?case
    by (auto intro: list_emb_Cons)
qed auto

lemma subseq_all: "subseq xs ys \<Longrightarrow> list_all P ys \<Longrightarrow> list_all P xs"
  by (induction rule: list_emb.induct) auto

lemma split_ws_strip: "split_ws (strip_mtp_flags s) = strip_spec (split_ws s)"
  unfolding strip_mtp_flags_def
  by (rule split_ws_join) (rule subseq_all [OF strip_spec_subseq split_ws_words])


definition demo_model :: model where
  "demo_model = \<lparr>m_path = ''/m/x.gguf'', m_name = ''x.gguf'', m_arch = ''qwen35'', m_params = None,
     m_quant = None, m_size = 5000, m_ctx_max = None, m_has_mtp = False\<rparr>"


end
