(* ===== verification/Swap.thy ===== *)
theory Swap
  imports Dropin
begin

text \<open>
  The swap of the served model (\<open>swap\<close> and \<open>poll_health\<close> of src/src/swap.rs). The actuator and
  the health probe are records of operations on a world, as the code is generic in its two traits;
  sleeping is an operation of the probe, so that the environment can change while the code waits.
  The locale \<open>swap_env\<close> is the contract of an actuator and a probe, and the client lemma
  \<open>swap_contract\<close> is what a swap then guarantees; the theory \<open>Systemd\<close> interprets it on the
  real actuator.
\<close>

section \<open>The two traits\<close>

record 'w actuator =
  a_stage :: "string \<Rightarrow> string \<Rightarrow> (string, 'w) step"
  a_rollback :: "string \<Rightarrow> (string, 'w) step"
  a_commit :: "(string, 'w) step"
  a_restart :: "string \<Rightarrow> (string, 'w) step"

record 'w health =
  h_healthy :: "'w \<Rightarrow> bool \<times> 'w"
  h_served :: "'w \<Rightarrow> string option \<times> 'w"
  h_warm :: "'w \<Rightarrow> 'w"
  h_pause :: "'w \<Rightarrow> 'w"

section \<open>Outcomes\<close>

datatype detail =
    Already_served
  | Stage_failed string
  | Did_not_take string
  | Loaded
  | Failed_to_load "string option"

record swap_outcome =
  s_from :: "string option"
  s_to :: string
  s_ok :: bool
  s_reverted :: bool
  s_detail :: detail

datatype swap_error = Build_not_installed "string option" | Commit_failed string

record swap_opts =
  o_host :: string
  o_port :: nat
  o_attempts :: nat
  o_prewarm :: bool
  o_base_env :: envmap

section \<open>The swap\<close>

fun poll_health :: "'w health \<Rightarrow> nat \<Rightarrow> 'w \<Rightarrow> bool \<times> 'w" where
  "poll_health H 0 w = (False, w)"
| "poll_health H (Suc n) w =
     (case h_healthy H w of
        (True, w) \<Rightarrow> (True, w)
      | (False, w) \<Rightarrow> poll_health H n (if n = 0 then w else h_pause H w))"

text \<open>Roll back and restart, then wait for the previous model; whether the revert succeeded.\<close>

definition revert :: "'w actuator \<Rightarrow> 'w health \<Rightarrow> nat \<Rightarrow> string \<Rightarrow> 'w \<Rightarrow> bool \<times> 'w" where
  "revert A H n u w =
     (let (r, w) = and_then (a_rollback A u) (a_restart A u) w;
          (_, w) = poll_health H n w
      in (is_ok r, w))"

definition failed :: "string option \<Rightarrow> string \<Rightarrow> bool \<Rightarrow> detail \<Rightarrow> swap_outcome" where
  "failed from to rvd d = \<lparr>s_from = from, s_to = to, s_ok = False, s_reverted = rvd, s_detail = d\<rparr>"

definition finish_ok :: "'w actuator \<Rightarrow> 'w health \<Rightarrow> bool \<Rightarrow> string option \<Rightarrow> string \<Rightarrow> 'w
    \<Rightarrow> (swap_error + swap_outcome) \<times> 'w" where
  "finish_ok A H prewarm from to w =
     (case a_commit A (if prewarm then h_warm H w else w) of
        (Inl e, w) \<Rightarrow> (Inl (Commit_failed e), w)
      | (Inr _, w) \<Rightarrow>
          (Inr \<lparr>s_from = from, s_to = to, s_ok = True, s_reverted = False, s_detail = Loaded\<rparr>, w))"

text \<open>After a restart: wait for health, check what is served, and commit or revert.\<close>

definition settle :: "'w actuator \<Rightarrow> 'w health \<Rightarrow> string \<Rightarrow> swap_opts \<Rightarrow> string option \<Rightarrow> string \<Rightarrow> 'w
    \<Rightarrow> (swap_error + swap_outcome) \<times> 'w" where
  "settle A H u opts from to w =
     (case poll_health H (o_attempts opts) w of
        (True, w) \<Rightarrow>
          (case h_served H w of
             (Some s, w) \<Rightarrow>
               if s \<noteq> to
               then (let (rvd, w) = revert A H (o_attempts opts) u w
                     in (Inr (failed from to rvd (Did_not_take s)), w))
               else finish_ok A H (o_prewarm opts) from to w
           | (None, w) \<Rightarrow> finish_ok A H (o_prewarm opts) from to w)
      | (False, w) \<Rightarrow>
          (let (rvd, w) = revert A H (o_attempts opts) u w in
           if rvd
           then (let (prev, w) = h_served H w
                 in (Inr (failed from to True (Failed_to_load prev)), w))
           else (Inr (failed from to False (Failed_to_load None)), w)))"

definition swap :: "(string \<Rightarrow> string \<Rightarrow> string option) \<Rightarrow> (string \<Rightarrow> string option)
    \<Rightarrow> 'w actuator \<Rightarrow> 'w health \<Rightarrow> string \<Rightarrow> model \<Rightarrow> profile \<Rightarrow> string \<Rightarrow> swap_opts \<Rightarrow> 'w
    \<Rightarrow> (swap_error + swap_outcome) \<times> 'w" where
  "swap find_bin find_dir A H u md p fl opts w =
     (let (from, w) = h_served H w; to = m_name md in
      if from = Some to
      then (Inr \<lparr>s_from = from, s_to = to, s_ok = True, s_reverted = False, s_detail = Already_served\<rparr>, w)
      else let (exe, ld) = launch find_bin find_dir p in
        if sep \<notin> set exe then (Inl (Build_not_installed (build_ref p)), w)
        else let d = render_dropin (penv p) exe ld fl (m_path md) (o_host opts) (o_port opts) (o_base_env opts)
          in case and_then (a_stage A u d) (a_restart A u) w of
            (Inl e, w) \<Rightarrow>
              (let (rvd, w) = revert A H (o_attempts opts) u w
               in (Inr (failed from to rvd (Stage_failed e)), w))
          | (Inr _, w) \<Rightarrow> settle A H u opts from to w)"

definition swap_dropin :: "(string \<Rightarrow> string \<Rightarrow> string option) \<Rightarrow> (string \<Rightarrow> string option)
    \<Rightarrow> model \<Rightarrow> profile \<Rightarrow> string \<Rightarrow> swap_opts \<Rightarrow> string" where
  "swap_dropin find_bin find_dir md p fl opts =
     (let (exe, ld) = launch find_bin find_dir p
      in render_dropin (penv p) exe ld fl (m_path md) (o_host opts) (o_port opts) (o_base_env opts))"

section \<open>The contract\<close>

text \<open>
  \<open>book\<close> is what the actuator writes and remembers, \<open>cfg\<close> the configuration on disk (a part of it),
  \<open>live\<close> the configuration the service was last started with. The probe touches none of them. After
  a stage and whatever came between, a successful rollback has every earlier entry of the
  configuration back, and the same configuration if the stage had succeeded.
\<close>

locale swap_env =
  fixes A :: "'w actuator" and H :: "'w health"
    and ok :: "'w \<Rightarrow> bool" and book :: "'w \<Rightarrow> 'b" and cfg :: "'w \<Rightarrow> 'c" and live :: "'w \<Rightarrow> 'c option"
    and within :: "'c \<Rightarrow> 'c \<Rightarrow> bool" and wins :: "string \<Rightarrow> 'c \<Rightarrow> bool"
  assumes healthy_frame: "h_healthy H w = (b, w') \<Longrightarrow> book w' = book w \<and> live w' = live w"
    and served_frame: "h_served H w = (s, w') \<Longrightarrow> book w' = book w \<and> live w' = live w \<and> (ok w \<longrightarrow> ok w')"
    and warm_frame: "book (h_warm H w) = book w \<and> live (h_warm H w) = live w"
    and pause_frame: "book (h_pause H w) = book w \<and> live (h_pause H w) = live w"
    and cfg_book: "book w = book w' \<Longrightarrow> cfg w = cfg w'"
    and restart: "a_restart A u w = (r, w') \<Longrightarrow> book w' = book w \<and> (r = Inr () \<longrightarrow> live w' = Some (cfg w))"
    and commit: "a_commit A w = (r, w') \<Longrightarrow> cfg w' = cfg w \<and> live w' = live w"
    and stage: "ok w \<Longrightarrow> a_stage A u d w = (Inr (), w1) \<Longrightarrow> wins d (cfg w1)"
    and restore: "ok w \<Longrightarrow> a_stage A u d w = (r, w1) \<Longrightarrow> book w2 = book w1 \<Longrightarrow>
        a_rollback A u w2 = (Inr (), w3) \<Longrightarrow> within (cfg w) (cfg w3) \<and> (r = Inr () \<longrightarrow> cfg w3 = cfg w)"
begin

lemma poll_frame: "poll_health H n w = (b, w') \<Longrightarrow> book w' = book w \<and> live w' = live w"
proof (induction n arbitrary: w)
  case (Suc n)
  then obtain b1 w1 where h: "h_healthy H w = (b1, w1)" by fastforce
  with Suc.prems Suc.IH [of "if n = 0 then w1 else h_pause H w1"] healthy_frame [OF h] pause_frame [of w1]
  show ?case by (cases b1) (auto split: if_splits)
qed simp

lemma revert_restores:
  assumes ok: "ok w0" and st: "a_stage A u d w0 = (r, w1)" and bk: "book w2 = book w1"
    and rv: "revert A H n u w2 = (True, w')"
  shows "within (cfg w0) (cfg w') \<and> (r = Inr () \<longrightarrow> cfg w' = cfg w0) \<and> live w' = Some (cfg w')"
proof -
  from rv obtain w3 w4 b where rb: "a_rollback A u w2 = (Inr (), w3)"
    and rs: "a_restart A u w3 = (Inr (), w4)" and pl: "poll_health H n w4 = (b, w')"
    by (auto simp: revert_def and_then_def is_ok_def split: prod.splits sum.splits)
  note f = restart [OF rs] poll_frame [OF pl]
  then have "cfg w' = cfg w3" and "live w' = Some (cfg w3)" using cfg_book [of w' w3] by auto
  with restore [OF ok st bk rb] show ?thesis by auto
qed

text \<open>
  The guarantee of an outcome: success means the drop-in \<open>d\<close> wins and runs; a reported revert means
  every earlier entry is back, exactly the earlier configuration if the stage had succeeded, and
  that it runs.
\<close>

definition outcome_ok :: "string \<Rightarrow> 'c \<Rightarrow> bool \<Rightarrow> swap_outcome \<Rightarrow> 'w \<Rightarrow> bool" where
  "outcome_ok d c0 staged out w' \<longleftrightarrow>
     \<not> (s_ok out \<and> s_reverted out) \<and>
     (s_ok out \<longrightarrow> wins d (cfg w') \<and> live w' = Some (cfg w')) \<and>
     (s_reverted out \<longrightarrow> within c0 (cfg w') \<and> (staged \<longrightarrow> cfg w' = c0) \<and> live w' = Some (cfg w'))"

lemma revert_outcome:
  assumes ok: "ok w0" and st: "a_stage A u d w0 = (r, w1)" and bk: "book w2 = book w1"
    and rv: "revert A H n u w2 = (rvd, w')"
  shows "outcome_ok d (cfg w0) (r = Inr ()) (failed frm to rvd dt) w'"
  using revert_restores [OF ok st bk] rv by (cases rvd) (auto simp: outcome_ok_def failed_def)

lemma finish_outcome:
  assumes w: "wins d (cfg w1)" and b: "book w = book w1" and l: "live w = Some (cfg w1)"
    and f: "finish_ok A H pw frm to w = (Inr out, w')"
  shows "outcome_ok d c0 staged out w'"
proof -
  let ?w = "if pw then h_warm H w else w"
  obtain r where c: "a_commit A ?w = (r, w')" and o: "s_ok out" "\<not> s_reverted out"
    using f by (auto simp: finish_ok_def split: prod.splits sum.splits)
  have "book ?w = book w1" "live ?w = Some (cfg w1)" using b l warm_frame by auto
  moreover have "cfg w' = cfg ?w" "live w' = live ?w" using commit [OF c] by auto
  ultimately have "cfg w' = cfg w1" "live w' = Some (cfg w1)" using cfg_book [of ?w w1] by simp_all
  with o w show ?thesis by (simp add: outcome_ok_def)
qed

lemma settle_outcome:
  assumes ok: "ok w0" and st: "a_stage A u d w0 = (Inr (), w1)"
    and b2: "book w2 = book w1" and l2: "live w2 = Some (cfg w1)"
    and run: "settle A H u opts frm to w2 = (Inr out, w')"
  shows "outcome_ok d (cfg w0) True out w'"
proof -
  obtain h w3 where 3: "poll_health H (o_attempts opts) w2 = (h, w3)" by fastforce
  have b3: "book w3 = book w1" and l3: "live w3 = Some (cfg w1)" using poll_frame [OF 3] b2 l2 by auto
  note R = revert_outcome [OF ok st, simplified]
  show ?thesis
  proof (cases h)
    case True
    obtain s w4 where 4: "h_served H w3 = (s, w4)" by fastforce
    have b4: "book w4 = book w1" and l4: "live w4 = Some (cfg w1)" using served_frame [OF 4] b3 l3 by auto
    from run True 3 4 consider "finish_ok A H (o_prewarm opts) frm to w4 = (Inr out, w')"
      | rvd x where "revert A H (o_attempts opts) u w4 = (rvd, w')" "out = failed frm to rvd (Did_not_take x)"
      by (auto simp: settle_def split: option.splits if_splits prod.splits)
    then show ?thesis
    proof cases
      case 1
      show ?thesis by (rule finish_outcome [OF stage [OF ok st] b4 l4 1])
    next
      case 2
      with R [OF b4] show ?thesis by simp
    qed
  next
    case False
    obtain rvd w4 where rv: "revert A H (o_attempts opts) u w3 = (rvd, w4)" by fastforce
    obtain prev w5 where 5: "h_served H w4 = (prev, w5)" by fastforce
    have "cfg w5 = cfg w4" "live w5 = live w4" using served_frame [OF 5] cfg_book [of w5 w4] by auto
    then have same: "outcome_ok d c st x w5 = outcome_ok d c st x w4" for c st x
      by (simp add: outcome_ok_def)
    show ?thesis
    proof (cases rvd)
      case True
      then have "out = failed frm to rvd (Failed_to_load prev)" "w' = w5"
        using run False by (simp_all add: settle_def 3 rv 5)
      with R [OF b3 rv] same show ?thesis by simp
    next
      case False
      then have "out = failed frm to rvd (Failed_to_load None)" "w' = w4"
        using run \<open>\<not> h\<close> by (simp_all add: settle_def 3 rv)
      with R [OF b3 rv] show ?thesis by simp
    qed
  qed
qed

text \<open>What a swap guarantees on an actuator and a probe that keep the contract.\<close>

lemma swap_contract:
  assumes run: "swap find_bin find_dir A H u md p fl opts w = (Inr out, w')" and ok: "ok w"
    and d: "d = swap_dropin find_bin find_dir md p fl opts"
  shows "if s_detail out = Already_served
    then s_ok out \<and> \<not> s_reverted out \<and> cfg w' = cfg w \<and> live w' = live w
    else outcome_ok d (cfg w) (fst (a_stage A u d (snd (h_served H w))) = Inr ()) out w'"
proof -
  obtain frm w0 where 0: "h_served H w = (frm, w0)" by fastforce
  note f0 = served_frame [OF 0]
  have c0: "cfg w0 = cfg w" and ok0: "ok w0" using f0 cfg_book [of w0 w] ok by auto
  obtain exe ld where l: "launch find_bin find_dir p = (exe, ld)" by fastforce
  have dd: "render_dropin (penv p) exe ld fl (m_path md) (o_host opts) (o_port opts) (o_base_env opts) = d"
    by (simp add: d swap_dropin_def l)
  show ?thesis
  proof (cases "frm = Some (m_name md)")
    case True
    with run 0 c0 f0 show ?thesis by (auto simp: swap_def Let_def)
  next
    case False
    obtain r1 w1 where 1: "a_stage A u d w0 = (r1, w1)" by fastforce
    obtain r2 w2 where 2: "and_then (a_stage A u d) (a_restart A u) w0 = (r2, w2)" by fastforce
    have b2: "book w2 = book w1" and ok2: "r2 = Inr () \<Longrightarrow> r1 = Inr () \<and> live w2 = Some (cfg w1)"
      using 1 2 restart [of u w1] by (auto simp: and_then_def split: prod.splits sum.splits)
    from run False 2 consider rvd e where "revert A H (o_attempts opts) u w2 = (rvd, w')"
        "out = failed frm (m_name md) rvd (Stage_failed e)"
      | "r2 = Inr ()" "settle A H u opts frm (m_name md) w2 = (Inr out, w')"
      by (cases r2) (auto simp: swap_def 0 l Let_def dd split: if_splits prod.splits)
    then have "outcome_ok d (cfg w0) (r1 = Inr ()) out w' \<and> s_detail out \<noteq> Already_served"
    proof cases
      case 1
      with revert_outcome [OF ok0 \<open>a_stage A u d w0 = (r1, w1)\<close> b2] show ?thesis by (simp add: failed_def)
    next
      case 2
      from ok2 [OF 2(1)] have r1: "r1 = Inr ()" "live w2 = Some (cfg w1)" by auto
      have "s_detail out \<noteq> Already_served"
        using 2(2) by (auto simp: settle_def finish_ok_def failed_def split: prod.splits sum.splits
            option.splits if_splits bool.splits)
      with settle_outcome [OF ok0 _ b2 r1(2) 2(2)] \<open>a_stage A u d w0 = (r1, w1)\<close> r1 show ?thesis by simp
    qed
    then show ?thesis by (simp add: 0 1 c0)
  qed
qed

end

text \<open>A probe whose health answers come from a list.\<close>

definition listed :: "'a health \<Rightarrow> ('a \<Rightarrow> bool list) \<Rightarrow> bool" where
  "listed H ans \<longleftrightarrow> (\<forall>w. ans w \<noteq> [] \<longrightarrow> fst (h_healthy H w) = hd (ans w) \<and> ans (snd (h_healthy H w)) = tl (ans w)) \<and>
     (\<forall>w. ans (h_pause H w) = ans w)"

text \<open>
  Waiting for health asks at most the configured number of times, and reports success exactly if
  one of those answers was positive, stopping at the first: on a probe that answers from a list,
  the answers used up are those before and including the first positive one.
\<close>

theorem poll_health_bounded:
  assumes "listed H ans" and "n \<le> length (ans w)"
  shows "(fst (poll_health H n w) \<longleftrightarrow> True \<in> set (take n (ans w))) \<and>
    length (ans w) - length (ans (snd (poll_health H n w))) \<le> n"
  using assms(2)
proof (induction n arbitrary: w)
  case (Suc n)
  obtain b w1 where h: "h_healthy H w = (b, w1)" by fastforce
  have a: "ans w = b # ans w1" using assms(1) Suc.prems h
    by (cases "ans w") (auto simp: listed_def dest: spec [of _ w])
  let ?w2 = "if n = 0 then w1 else h_pause H w1"
  have a2: "ans ?w2 = ans w1" using assms(1) by (simp add: listed_def)
  show ?case
  proof (cases b)
    case True
    then show ?thesis by (simp add: h a)
  next
    case False
    with Suc.IH [of ?w2] Suc.prems show ?thesis by (auto simp: h a a2)
  qed
qed simp

end
