(* ===== verification/Systemd.thy ===== *)
theory Systemd
  imports Swap "HOL-Library.Product_Lexorder"
begin

text \<open>
  The real actuator of a swap (\<open>SystemdActuator\<close> of src/src/swap.rs): the drop-ins of one unit in
  the directories systemd merges, the choice of a winning file name, staging, rollback and restart
  through privileged commands that can fail, and the HTTP probe. It provides the contract \<open>swap_env\<close>.

  The world \<open>sysd\<close> holds the drop-ins by directory and file name, the two memories of the actuator,
  the configuration the service was last started with (\<open>service\<close>), the outcome of each privileged
  command to come (\<open>sfaults\<close>, success once the list is used up; a failing \<open>tee\<close> has written a
  beginning of the text), the files whose privileged read fails (\<open>unreadable\<close>), and the answers the
  probe will get. A directory is scanned in name order.
\<close>

section \<open>Unit directories\<close>

datatype root = Etc | Run | Usr_lib | Lib

fun rank_root :: "root \<Rightarrow> nat" where
  "rank_root Etc = 0"
| "rank_root Run = 1"
| "rank_root Usr_lib = 2"
| "rank_root Lib = 3"

instantiation root :: linorder
begin

definition less_eq_root :: "root \<Rightarrow> root \<Rightarrow> bool" where
  "less_eq_root a b = (rank_root a \<le> rank_root b)"

definition less_root :: "root \<Rightarrow> root \<Rightarrow> bool" where
  "less_root a b = (rank_root a < rank_root b)"

instance
proof
  fix a b :: root
  show "a \<le> b \<Longrightarrow> b \<le> a \<Longrightarrow> a = b" by (cases a; cases b) (simp_all add: less_eq_root_def)
qed (auto simp: less_eq_root_def less_root_def)

end

definition scan_roots :: "root list" where
  "scan_roots = [Etc, Run, Usr_lib, Lib]"

section \<open>Whether /etc is writable\<close>

definition unescape_mount :: "string \<Rightarrow> string" where
  "unescape_mount s = replace [CHR 0x5C, CHR ''0'', CHR ''1'', CHR ''1''] [CHR 0x09]
     (replace [CHR 0x5C, CHR ''0'', CHR ''4'', CHR ''0''] '' '' s)"

fun best_mount :: "string \<Rightarrow> string list \<Rightarrow> (nat \<times> bool) option \<Rightarrow> (nat \<times> bool) option" where
  "best_mount path [] best = best"
| "best_mount path (l # ls) best =
     (case split_ws l of
        _ # mp # _ # opts # _ \<Rightarrow>
          (let mp = unescape_mount mp in
           if path_starts_with path mp \<and> (case best of None \<Rightarrow> True | Some (n, _) \<Rightarrow> n \<le> length mp)
           then best_mount path ls (Some (length mp, ''ro'' \<in> set (split_on CHR '','' opts)))
           else best_mount path ls best)
      | _ \<Rightarrow> best_mount path ls best)"

definition mounted_ro :: "string \<Rightarrow> string \<Rightarrow> bool" where
  "mounted_ro mounts path = (case best_mount path (lines mounts) None of None \<Rightarrow> False | Some (_, ro) \<Rightarrow> ro)"

definition etc_unit_dir :: string where "etc_unit_dir = ''/etc/systemd/system''"

definition etc_units_writable_from :: "bool \<Rightarrow> string option \<Rightarrow> string \<Rightarrow> bool" where
  "etc_units_writable_from nixos canon mounts =
     (if nixos then False
      else if (case canon of None \<Rightarrow> False | Some c \<Rightarrow> path_starts_with c ''/nix/store'') then False
      else \<not> mounted_ro mounts etc_unit_dir)"

section \<open>Privileged commands\<close>

type_synonym conf_path = "root \<times> string"
type_synonym conf_map = "(conf_path, string) btree"

record sysd =
  confs :: conf_map
  etc_rw :: bool
  wrote :: "conf_path option"
  removed :: "(conf_path \<times> string) option"
  backup :: "string option"
  keyfile :: "string option"
  service :: "conf_map option"
  sfaults :: "io list"
  unreadable :: "conf_path list"
  probes :: "bool list"
  replies :: "string option list"

definition privileged_argv :: "bool \<Rightarrow> string list \<Rightarrow> string list" where
  "privileged_argv root args = (if root then args else ''sudo'' # args)"

definition must_be_noninteractive :: "bool \<Rightarrow> bool" where
  "must_be_noninteractive tui = tui"

text \<open>The argument vector \<open>sudo\<close> executes, with \<open>-n\<close> while the terminal interface owns the terminal.\<close>

definition sudo_argv :: "bool \<Rightarrow> bool \<Rightarrow> string list \<Rightarrow> string list option" where
  "sudo_argv root tui args =
     (if args = [] then None
      else case privileged_argv root args of
        [] \<Rightarrow> None
      | prog # rest \<Rightarrow>
          Some (if prog = ''sudo'' \<and> must_be_noninteractive tui then prog # ''-n'' # rest else prog # rest))"

definition sudo :: "(sysd \<Rightarrow> sysd) \<Rightarrow> (string, sysd) step" where
  "sudo f w =
     (case sfaults w of
        [] \<Rightarrow> (Inr (), f w)
      | Io_ok # fs \<Rightarrow> (Inr (), f (w\<lparr>sfaults := fs\<rparr>))
      | Io_fail _ # fs \<Rightarrow> (Inl ''sudo'', w\<lparr>sfaults := fs\<rparr>))"

definition sudo_tee :: "(string \<Rightarrow> sysd \<Rightarrow> sysd) \<Rightarrow> string \<Rightarrow> (string, sysd) step" where
  "sudo_tee put c w =
     (case sfaults w of
        [] \<Rightarrow> (Inr (), put c w)
      | Io_ok # fs \<Rightarrow> (Inr (), put c (w\<lparr>sfaults := fs\<rparr>))
      | Io_fail n # fs \<Rightarrow> (Inl ''tee'', put (take n c) (w\<lparr>sfaults := fs\<rparr>)))"

text \<open>\<open>install -m 600 /dev/null\<close>, then \<open>tee\<close>.\<close>

definition sudo_tee_secret :: "(string \<Rightarrow> sysd \<Rightarrow> sysd) \<Rightarrow> string \<Rightarrow> (string, sysd) step" where
  "sudo_tee_secret put c = and_then (sudo (put [])) (sudo_tee put c)"

definition put_conf :: "conf_path \<Rightarrow> string \<Rightarrow> sysd \<Rightarrow> sysd" where
  "put_conf p c w = w\<lparr>confs := bt_insert p c (confs w)\<rparr>"

definition del_conf :: "conf_path \<Rightarrow> sysd \<Rightarrow> sysd" where
  "del_conf p w = w\<lparr>confs := bt_remove p (confs w)\<rparr>"

definition put_backup :: "string \<Rightarrow> sysd \<Rightarrow> sysd" where
  "put_backup c w = w\<lparr>backup := Some c\<rparr>"

definition put_key :: "string \<Rightarrow> sysd \<Rightarrow> sysd" where
  "put_key c w = w\<lparr>keyfile := Some c\<rparr>"

definition read_dropin :: "sysd \<Rightarrow> conf_path \<Rightarrow> string" where
  "read_dropin w p =
     (if p \<in> set (unreadable w) then [] else case bt_get (confs w) p of None \<Rightarrow> [] | Some c \<Rightarrow> c)"

section \<open>Scanning\<close>

definition marker :: string where
  "marker = ''AUTO-GENERATED by llmtune [model-select]''"

definition llmtune_prefix :: string where
  "llmtune_prefix = ''AUTO-GENERATED by llmtune''"

definition is_conf :: "string \<Rightarrow> bool" where
  "is_conf n \<longleftrightarrow> extension n = Some ''conf''"

definition install_root :: "sysd \<Rightarrow> root" where
  "install_root w = (if etc_rw w then Etc else Run)"

definition writable :: "sysd \<Rightarrow> root \<Rightarrow> bool" where
  "writable w r \<longleftrightarrow> r = install_root w \<or> r = Run"

definition conf_files :: "sysd \<Rightarrow> root \<Rightarrow> conf_path list" where
  "conf_files w r = filter (\<lambda>p. fst p = r \<and> is_conf (snd p)) (map fst (confs w))"

definition scan_dropins :: "(string \<Rightarrow> bool) \<Rightarrow> sysd \<Rightarrow> root \<Rightarrow> conf_path list \<times> string list" where
  "scan_dropins is_ours w r =
     (filter (\<lambda>p. is_ours (read_dropin w p)) (conf_files w r),
      map snd (filter (\<lambda>p. \<not> is_ours (read_dropin w p)) (conf_files w r)))"

fun collect_in :: "(string \<Rightarrow> bool) \<Rightarrow> sysd \<Rightarrow> root list \<Rightarrow> conf_path list \<times> string list" where
  "collect_in is_ours w [] = ([], [])"
| "collect_in is_ours w (r # rs) =
     (let (o1, f1) = scan_dropins is_ours w r; (o2, f2) = collect_in is_ours w rs in
      if writable w r then (o1 @ o2, f1 @ f2) else (o2, map snd o1 @ f1 @ f2))"

definition collect_dropins :: "sysd \<Rightarrow> conf_path list \<times> string list" where
  "collect_dropins w = collect_in (\<lambda>t. contains t marker) w scan_roots"

definition collect_dropins_llmtune :: "sysd \<Rightarrow> conf_path list \<times> string list" where
  "collect_dropins_llmtune w = collect_in (\<lambda>t. contains t llmtune_prefix) w scan_roots"

definition base_name :: string where
  "base_name = ''zzzzzz-llmtune.conf''"

fun max_str_of :: "string list \<Rightarrow> string option" where
  "max_str_of [] = None"
| "max_str_of (n # ns) = (case max_str_of ns of None \<Rightarrow> Some n | Some m \<Rightarrow> Some (max n m))"

definition winning_name :: "string list \<Rightarrow> string" where
  "winning_name foreign =
     (case max_str_of foreign of
        None \<Rightarrow> base_name
      | Some m \<Rightarrow>
          if base_name \<le> m
          then (case strip_suffix m ''.conf'' of None \<Rightarrow> m | Some s \<Rightarrow> s) @ ''z-llmtune.conf''
          else base_name)"

section \<open>The actuator\<close>

text \<open>An operation whose failure is ignored.\<close>

definition attempt :: "(string, sysd) step \<Rightarrow> sysd \<Rightarrow> sysd" where
  "attempt f w = snd (f w)"

definition back_up :: "conf_path \<Rightarrow> sysd \<Rightarrow> sysd" where
  "back_up p w =
     (let c = read_dropin w p;
          w = attempt (sudo id) w;
          w = attempt (sudo_tee_secret put_backup c) w
      in w\<lparr>removed := Some (p, c)\<rparr>)"

definition remove_own :: "conf_path list \<Rightarrow> sysd \<Rightarrow> sysd" where
  "remove_own ps w =
     (case ps of
        [] \<Rightarrow> w
      | p # qs \<Rightarrow>
          foldl (\<lambda>w q. attempt (sudo (del_conf q)) w) (attempt (sudo (del_conf p)) (back_up p w)) qs)"

definition stage :: "string \<Rightarrow> string \<Rightarrow> (string, sysd) step" where
  "stage u d w =
     (let (ours, foreign) = collect_dropins w;
          q = (install_root w, winning_name foreign)
      in and_then (sudo id)
           (and_then (sudo_tee_secret (put_conf q) d) (\<lambda>w. (Inr (), w\<lparr>wrote := Some q\<rparr>)))
           (remove_own ours w))"

definition undo_write :: "(string, sysd) step" where
  "undo_write w = (case wrote w of None \<Rightarrow> (Inr (), w) | Some q \<Rightarrow> sudo (del_conf q) (w\<lparr>wrote := None\<rparr>))"

definition undo_remove :: "(string, sysd) step" where
  "undo_remove w =
     (case removed w of
        None \<Rightarrow> (Inr (), w)
      | Some (p, c) \<Rightarrow> sudo_tee_secret (put_conf p) c (w\<lparr>removed := None\<rparr>))"

definition rollback :: "string \<Rightarrow> (string, sysd) step" where
  "rollback u = and_then undo_write undo_remove"

definition commit :: "(string, sysd) step" where
  "commit w = (Inr (), w\<lparr>removed := None\<rparr>)"

definition start_service :: "sysd \<Rightarrow> sysd" where
  "start_service w = w\<lparr>service := Some (confs w)\<rparr>"

text \<open>\<open>daemon-reload\<close>, \<open>reset-failed\<close> with its result ignored, \<open>restart\<close>.\<close>

definition reload_restart :: "string \<Rightarrow> (string, sysd) step" where
  "reload_restart u =
     and_then (sudo id) (and_then (\<lambda>w. (Inr (), attempt (sudo id) w)) (sudo start_service))"

fun remove_all :: "conf_path list \<Rightarrow> (string, sysd) step" where
  "remove_all [] w = (Inr (), w)"
| "remove_all (p # ps) w = and_then (sudo (del_conf p)) (remove_all ps) w"

definition clear_dropin :: "string \<Rightarrow> (string, sysd) step" where
  "clear_dropin u w = and_then (remove_all (fst (collect_dropins_llmtune w))) (reload_restart u) w"

definition systemd :: "sysd actuator" where
  "systemd = \<lparr>a_stage = stage, a_rollback = rollback, a_commit = commit, a_restart = reload_restart\<rparr>"

text \<open>
  The answers of \<open>systemctl show\<close> about the unit: its user (root where unset), and the environment of
  its fragment file. The key of the server goes to an owner-only file: make the directory, write the
  key, hand the file to the unit's user.
\<close>

definition unit_user :: "string option \<Rightarrow> string" where
  "unit_user shown =
     (case shown of None \<Rightarrow> ''root'' | Some s \<Rightarrow> if trim s = [] then ''root'' else trim s)"

definition unit_base_env :: "string option \<Rightarrow> (string \<Rightarrow> string option) \<Rightarrow> envmap" where
  "unit_base_env shown read =
     (let frag = (case shown of None \<Rightarrow> [] | Some s \<Rightarrow> trim s) in
      if frag = [] then []
      else case read frag of None \<Rightarrow> [] | Some t \<Rightarrow> parse_unit_env t)"

definition write_api_key_file :: "string \<Rightarrow> string \<Rightarrow> sysd \<Rightarrow> (string + string) \<times> sysd" where
  "write_api_key_file path key w =
     (case and_then (sudo id) (and_then (sudo_tee_secret put_key key) (sudo id)) w of
        (Inl e, w) \<Rightarrow> (Inl e, w)
      | (Inr _, w) \<Rightarrow> (Inr path, w))"

section \<open>The probe\<close>

definition http_healthy :: "sysd \<Rightarrow> bool \<times> sysd" where
  "http_healthy w = (case probes w of [] \<Rightarrow> (False, w) | b # bs \<Rightarrow> (b, w\<lparr>probes := bs\<rparr>))"

definition http_served :: "sysd \<Rightarrow> string option \<times> sysd" where
  "http_served w = (case replies w of [] \<Rightarrow> (None, w) | s # ss \<Rightarrow> (s, w\<lparr>replies := ss\<rparr>))"

definition http_health :: "sysd health" where
  "http_health = \<lparr>h_healthy = http_healthy, h_served = http_served, h_warm = id, h_pause = id\<rparr>"

section \<open>The winning name\<close>

lemma max_str_of_None [simp]: "max_str_of ns = None \<longleftrightarrow> ns = []"
  by (cases ns) (auto split: option.splits)

lemma max_str_of_Some: "max_str_of ns = Some m \<Longrightarrow> m \<in> set ns \<and> (\<forall>n \<in> set ns. n \<le> m)"
proof (induction ns arbitrary: m)
  case (Cons n ns)
  show ?case
  proof (cases "max_str_of ns")
    case None
    with Cons.prems show ?thesis by simp
  next
    case (Some k)
    with Cons.prems have m: "m = max n k" by simp
    from Cons.IH [OF Some] have "k \<in> set ns" "\<forall>x \<in> set ns. x \<le> k" by auto
    with m show ?thesis by (auto simp: max_def)
  qed
qed simp

lemma append_less: "y \<noteq> [] \<Longrightarrow> x < x @ y" for x y :: string
  by (induction x) (auto simp: neq_Nil_conv)

lemma append_less_append: "x < y \<Longrightarrow> s @ x < s @ y" for x y :: string
  by (induction s) auto

lemma stem_z_less: "s @ ''.conf'' < s @ ''z-llmtune.conf''"
  by (rule append_less_append) (simp add: less_char_def)

lemma winning_above_max:
  assumes "base_name \<le> m"
  shows "m < (case strip_suffix m ''.conf'' of None \<Rightarrow> m | Some s \<Rightarrow> s) @ ''z-llmtune.conf''"
proof (cases "suffix ''.conf'' m")
  case False
  then show ?thesis by (simp add: strip_suffix_def append_less)
next
  case True
  then obtain s where "m = s @ ''.conf''" by (auto simp: suffix_def)
  then show ?thesis using stem_z_less [of s] suffixI [of m s "''.conf''"] by (simp add: strip_suffix_def)
qed

lemma winning_name_above:
  assumes "n \<in> set foreign"
  shows "n < winning_name foreign"
proof -
  obtain m where m: "max_str_of foreign = Some m"
    using assms by (cases "max_str_of foreign") auto
  then have nm: "n \<le> m" using max_str_of_Some assms by blast
  show ?thesis
  proof (cases "base_name \<le> m")
    case False
    with nm m show ?thesis by (auto simp: winning_name_def)
  next
    case True
    from winning_above_max [OF True] True m nm show ?thesis by (simp add: winning_name_def)
  qed
qed

lemma winning_name_form: "\<exists>s. winning_name foreign = s @ ''-llmtune.conf'' \<and> s \<noteq> [] \<and>
    (set s \<subseteq> {CHR ''z''} \<or> (\<exists>m \<in> set foreign. set s \<subseteq> insert CHR ''z'' (set m)))"
proof (cases "\<exists>m. max_str_of foreign = Some m \<and> base_name \<le> m")
  case False
  then have "winning_name foreign = ''zzzzzz'' @ ''-llmtune.conf''"
    by (auto simp: winning_name_def base_name_def split: option.splits)
  then show ?thesis by fastforce
next
  case True
  then obtain m where m: "max_str_of foreign = Some m" "base_name \<le> m" by blast
  let ?s = "case strip_suffix m ''.conf'' of None \<Rightarrow> m | Some s \<Rightarrow> s"
  have "set ?s \<subseteq> set m" by (auto simp: strip_suffix_def dest: in_set_takeD)
  moreover from m have "winning_name foreign = (?s @ ''z'') @ ''-llmtune.conf''"
    by (simp add: winning_name_def)
  moreover have "m \<in> set foreign" using m max_str_of_Some by blast
  ultimately show ?thesis by (intro exI [of _ "?s @ ''z''"]) auto
qed

lemma conf_name_extension:
  assumes "sep \<notin> set s" and "s \<noteq> []"
  shows "is_conf (s @ ''-llmtune.conf'') \<and> plain_name (s @ ''-llmtune.conf'')"
proof -
  have p: "plain_name (s @ ''-llmtune.conf'')"
    using assms by (auto simp: plain_name_def sep_def)
  have "rsplit_once CHR ''.'' (s @ ''-llmtune.conf'') = Some (s @ ''-llmtune'', ''conf'')"
    by (simp add: rsplit_once_def)
  with p assms show ?thesis by (simp add: is_conf_def extension_def file_name_plain)
qed

lemma winning_name_conf:
  assumes "\<forall>n \<in> set foreign. plain_name n"
  shows "is_conf (winning_name foreign) \<and> plain_name (winning_name foreign)"
proof -
  obtain s where s: "winning_name foreign = s @ ''-llmtune.conf''" "s \<noteq> []"
    "set s \<subseteq> {CHR ''z''} \<or> (\<exists>m \<in> set foreign. set s \<subseteq> insert CHR ''z'' (set m))"
    using winning_name_form by blast
  then have "sep \<notin> set s" using assms by (fastforce simp: plain_name_def sep_def)
  with conf_name_extension s show ?thesis by simp
qed

section \<open>Scanning and staging\<close>

definition dir_ok :: "sysd \<Rightarrow> bool" where
  "dir_ok w \<longleftrightarrow> bt_wf (confs w) \<and> (\<forall>k \<in> fst ` set (confs w). plain_name (snd k))"

text \<open>The state a swap starts from: an actuator with empty memories and at most one drop-in of ours.\<close>

definition sysd_ok :: "sysd \<Rightarrow> bool" where
  "sysd_ok w \<longleftrightarrow> dir_ok w \<and> length (fst (collect_dropins w)) \<le> 1 \<and> wrote w = None \<and> removed w = None \<and>
     unreadable w = []"

text \<open>A file of another owner, or one that cannot be replaced because its root is never writable.\<close>

definition not_ours :: "conf_path \<times> string \<Rightarrow> bool" where
  "not_ours f \<longleftrightarrow> is_conf (snd (fst f)) \<and> (\<not> contains (snd f) marker \<or> fst (fst f) \<in> {Usr_lib, Lib})"

text \<open>The file with content \<open>d\<close> sorts after every such file, so its settings are the last merged.\<close>

definition conf_wins :: "string \<Rightarrow> conf_map \<Rightarrow> bool" where
  "conf_wins d c \<longleftrightarrow> (\<exists>q. bt_get c q = Some d \<and> is_conf (snd q) \<and>
     (\<forall>f \<in> set c. fst f \<noteq> q \<longrightarrow> not_ours f \<longrightarrow> snd (fst f) < snd q))"

definition conf_within :: "conf_map \<Rightarrow> conf_map \<Rightarrow> bool" where
  "conf_within c c' \<longleftrightarrow> (\<forall>k v. bt_get c k = Some v \<longrightarrow> bt_get c' k = Some v)"

definition sysd_book :: "sysd \<Rightarrow> conf_map \<times> conf_path option \<times> (conf_path \<times> string) option" where
  "sysd_book w = (confs w, wrote w, removed w)"

lemma collect_in_ours: "p \<in> set (fst (collect_in P w rs)) \<longleftrightarrow>
    fst p \<in> set rs \<and> writable w (fst p) \<and> p \<in> fst ` set (confs w) \<and> is_conf (snd p) \<and> P (read_dropin w p)"
  by (induction rs) (auto simp: scan_dropins_def conf_files_def split: prod.splits)

lemma collect_in_foreign: "n \<in> set (snd (collect_in P w rs)) \<longleftrightarrow>
    (\<exists>p. snd p = n \<and> fst p \<in> set rs \<and> p \<in> fst ` set (confs w) \<and> is_conf n \<and>
       (P (read_dropin w p) \<longrightarrow> \<not> writable w (fst p)))"
proof (induction rs)
  case (Cons r rs)
  obtain a b where c: "collect_in P w rs = (a, b)" by fastforce
  let ?hit = "\<lambda>p. snd p = n \<and> p \<in> fst ` set (confs w) \<and> is_conf n \<and>
     (P (read_dropin w p) \<longrightarrow> \<not> writable w (fst p))"
  have "n \<in> set (snd (collect_in P w (r # rs))) \<longleftrightarrow> (\<exists>p. fst p = r \<and> ?hit p) \<or> n \<in> set b"
    by (auto simp: c scan_dropins_def conf_files_def image_iff Let_def)
  also have "\<dots> \<longleftrightarrow> (\<exists>p. fst p \<in> set (r # rs) \<and> ?hit p)"
    using Cons.IH by (auto simp: c)
  finally show ?case by blast
qed simp

lemma scan_roots_all: "r \<in> set scan_roots"
  by (cases r) (auto simp: scan_roots_def)

lemmas collect_iff = collect_in_ours [where rs = scan_roots, simplified scan_roots_all simp_thms]
  collect_in_foreign [where rs = scan_roots, simplified scan_roots_all simp_thms]

lemma sudo_cases:
  assumes "sudo f w = (r, w')"
  obtains fs where "r = Inr ()" "w' = f (w\<lparr>sfaults := fs\<rparr>)" | fs e where "r = Inl e" "w' = w\<lparr>sfaults := fs\<rparr>"
  using assms by (auto simp: sudo_def split: list.splits io.splits) (metis sysd.surjective sysd.update_convs(8))

lemma sudo_put:
  assumes "sudo (put_conf q t) w = (r, w')"
  shows "wrote w' = wrote w \<and> removed w' = removed w \<and>
    (confs w' = bt_insert q t (confs w) \<or> r \<noteq> Inr () \<and> confs w' = confs w)"
  using assms by (rule sudo_cases) (simp_all add: put_conf_def)

lemma tee_put:
  assumes "sudo_tee (put_conf q) c w = (r, w')"
  shows "wrote w' = wrote w \<and> removed w' = removed w \<and>
    (\<exists>t. confs w' = bt_insert q t (confs w) \<and> (r = Inr () \<longrightarrow> t = c))"
  using assms by (cases "sfaults w"; cases "hd (sfaults w)") (auto simp: sudo_tee_def put_conf_def)

lemma tee_secret_effect:
  assumes run: "sudo_tee_secret (put_conf q) c w = (r, w')" and wf: "bt_wf (confs w)"
  shows "wrote w' = wrote w \<and> removed w' = removed w \<and>
    (if r = Inr () then confs w' = bt_insert q c (confs w)
     else confs w' = confs w \<or> (\<exists>t. confs w' = bt_insert q t (confs w)))"
proof (rule and_then_cases [of "sudo (put_conf q [])" w "sudo_tee (put_conf q) c"])
  fix e v assume a: "sudo (put_conf q []) w = (Inl e, v)"
    and "and_then (sudo (put_conf q [])) (sudo_tee (put_conf q) c) w = (Inl e, v)"
  with run have "r = Inl e" "w' = v" by (auto simp: sudo_tee_secret_def)
  with sudo_put [OF a] show ?thesis by auto
next
  fix v assume a: "sudo (put_conf q []) w = (Inr (), v)"
    and "and_then (sudo (put_conf q [])) (sudo_tee (put_conf q) c) w = sudo_tee (put_conf q) c v"
  with run have b: "sudo_tee (put_conf q) c v = (r, w')" by (simp add: sudo_tee_secret_def)
  from sudo_put [OF a] have "confs v = bt_insert q [] (confs w)" by simp
  then have "bt_insert q t (confs v) = bt_insert q t (confs w)" for t by (simp add: bt.ins_ins wf)
  with sudo_put [OF a] tee_put [OF b] show ?thesis by auto
qed

lemma sudo_backup:
  "sudo (put_backup t) v = (q, v') \<Longrightarrow> confs v' = confs v \<and> wrote v' = wrote v \<and> removed v' = removed v"
  by (erule sudo_cases) (simp_all add: put_backup_def)

lemma tee_backup:
  "sudo_tee put_backup c v = (q, v') \<Longrightarrow> confs v' = confs v \<and> wrote v' = wrote v \<and> removed v' = removed v"
  by (cases "sfaults v"; cases "hd (sfaults v)") (auto simp: sudo_tee_def put_backup_def)

lemma tee_backup_frame:
  assumes "sudo_tee_secret put_backup c w = (r, w')"
  shows "confs w' = confs w \<and> wrote w' = wrote w \<and> removed w' = removed w"
proof (rule and_then_cases [of "sudo (put_backup [])" w "sudo_tee put_backup c"])
  fix e v assume "sudo (put_backup []) w = (Inl e, v)"
    and "and_then (sudo (put_backup [])) (sudo_tee put_backup c) w = (Inl e, v)"
  with assms show ?thesis using sudo_backup [of "[]" w "Inl e" v] by (simp add: sudo_tee_secret_def)
next
  fix v assume a: "sudo (put_backup []) w = (Inr (), v)"
    and "and_then (sudo (put_backup [])) (sudo_tee put_backup c) w = sudo_tee put_backup c v"
  with assms have "sudo_tee put_backup c v = (r, w')" by (simp add: sudo_tee_secret_def)
  with tee_backup sudo_backup [OF a] show ?thesis by metis
qed

lemma sudo_effect:
  "sudo f w = (r, w') \<Longrightarrow> (\<exists>fs. w' = f (w\<lparr>sfaults := fs\<rparr>)) \<or> r \<noteq> Inr () \<and> (\<exists>fs. w' = w\<lparr>sfaults := fs\<rparr>)"
  by (rule sudo_cases) auto

lemma sudo_id: "sudo id w = (r, w') \<Longrightarrow> sysd_book w' = sysd_book w"
  by (erule sudo_cases) (simp_all add: sysd_book_def)

lemma attempt_del:
  "confs (attempt (sudo (del_conf p)) w) \<in> {confs w, bt_remove p (confs w)} \<and>
   wrote (attempt (sudo (del_conf p)) w) = wrote w \<and> removed (attempt (sudo (del_conf p)) w) = removed w"
proof (cases "sudo (del_conf p) w")
  case (Pair r w')
  from Pair have "confs w' \<in> {confs w, bt_remove p (confs w)} \<and> wrote w' = wrote w \<and> removed w' = removed w"
    by (rule sudo_cases) (simp_all add: del_conf_def)
  with Pair show ?thesis by (simp add: attempt_def)
qed

lemma back_up_effect:
  "confs (back_up p w) = confs w \<and> wrote (back_up p w) = wrote w \<and> removed (back_up p w) = Some (p, read_dropin w p)"
proof -
  obtain r1 w1 where 1: "sudo id w = (r1, w1)" by fastforce
  obtain r2 w2 where 2: "sudo_tee_secret put_backup (read_dropin w p) w1 = (r2, w2)" by fastforce
  from 1 2 have "back_up p w = w2\<lparr>removed := Some (p, read_dropin w p)\<rparr>"
    by (simp add: back_up_def attempt_def)
  with sudo_id [OF 1] tee_backup_frame [OF 2] show ?thesis by (simp add: sysd_book_def)
qed

text \<open>With at most one drop-in of ours, removing it takes away that entry or nothing, and remembers it.\<close>

lemma remove_own_effect:
  assumes "length ps \<le> 1"
  shows "wrote (remove_own ps w) = wrote w \<and>
    (case ps of
       [] \<Rightarrow> confs (remove_own ps w) = confs w \<and> removed (remove_own ps w) = removed w
     | p # _ \<Rightarrow> confs (remove_own ps w) \<in> {confs w, bt_remove p (confs w)} \<and>
         removed (remove_own ps w) = Some (p, read_dropin w p))"
  using assms attempt_del [of "hd ps" "back_up (hd ps) w"] back_up_effect [of "hd ps" w]
  by (cases ps) (auto simp: remove_own_def)

text \<open>The staged path: after every foreign name, and new unless it is our own file.\<close>

definition staged_path :: "sysd \<Rightarrow> conf_path" where
  "staged_path w = (install_root w, winning_name (snd (collect_dropins w)))"

lemma collect_dropins_iff:
  "p \<in> set (fst (collect_dropins w)) \<longleftrightarrow>
     writable w (fst p) \<and> p \<in> fst ` set (confs w) \<and> is_conf (snd p) \<and> contains (read_dropin w p) marker"
  "n \<in> set (snd (collect_dropins w)) \<longleftrightarrow>
    (\<exists>p. snd p = n \<and> p \<in> fst ` set (confs w) \<and> is_conf n \<and>
       (contains (read_dropin w p) marker \<longrightarrow> \<not> writable w (fst p)))"
  by (simp_all add: collect_dropins_def collect_iff)

lemma staged_path_conf:
  assumes "dir_ok w"
  shows "is_conf (snd (staged_path w)) \<and> plain_name (snd (staged_path w))"
proof -
  have "plain_name n" if "n \<in> set (snd (collect_dropins w))" for n
    using that assms unfolding collect_dropins_iff(2) dir_ok_def by blast
  then show ?thesis by (simp add: staged_path_def winning_name_conf)
qed

lemma staged_path_fresh:
  assumes ok: "dir_ok w" and k: "staged_path w \<in> fst ` set (confs w)"
  shows "staged_path w \<in> set (fst (collect_dropins w))"
proof (rule ccontr)
  assume "\<not> ?thesis"
  moreover have "writable w (fst (staged_path w))" by (simp add: staged_path_def writable_def)
  ultimately have "snd (staged_path w) \<in> set (snd (collect_dropins w))"
    unfolding collect_dropins_iff using staged_path_conf [OF ok] k by blast
  then have "snd (staged_path w) < winning_name (snd (collect_dropins w))" by (rule winning_name_above)
  then show False by (simp add: staged_path_def)
qed

lemma read_dropin_get: "unreadable w = [] \<Longrightarrow> bt_get (confs w) p = Some c \<Longrightarrow> read_dropin w p = c"
  by (simp add: read_dropin_def)

text \<open>What staging leaves: the bookkeeping \<open>rm\<close>, then the configuration without or with the new file.\<close>

definition own_entry :: "sysd \<Rightarrow> (conf_path \<times> string) option" where
  "own_entry w = (case fst (collect_dropins w) of [] \<Rightarrow> None | p # _ \<Rightarrow> Some (p, read_dropin w p))"

definition base_after :: "sysd \<Rightarrow> conf_map \<Rightarrow> bool" where
  "base_after w x \<longleftrightarrow> x = confs w \<or> (\<exists>p c. own_entry w = Some (p, c) \<and> x = bt_remove p (confs w))"

definition staged_ok :: "sysd \<Rightarrow> string \<Rightarrow> string + unit \<Rightarrow> sysd \<Rightarrow> conf_map \<Rightarrow> bool" where
  "staged_ok w d r w1 x \<longleftrightarrow> base_after w x \<and> removed w1 = own_entry w \<and>
     (if r = Inr () then confs w1 = bt_insert (staged_path w) d x \<and> wrote w1 = Some (staged_path w)
      else wrote w1 = None \<and> (confs w1 = x \<or> (\<exists>t. confs w1 = bt_insert (staged_path w) t x)))"

lemma base_after_wf: "base_after w x \<Longrightarrow> bt_wf (confs w) \<Longrightarrow> bt_wf x"
  by (auto simp: base_after_def bt.wf_rem)

lemma stage_effect:
  assumes ok: "sysd_ok w" and run: "stage u d w = (r, w1)"
  shows "\<exists>x. staged_ok w d r w1 x"
proof -
  let ?q = "staged_path w" and ?ours = "fst (collect_dropins w)"
  define v where "v = remove_own ?ours w"
  have len: "length ?ours \<le> 1" and mem: "wrote w = None" "removed w = None" and wf: "bt_wf (confs w)"
    using ok by (auto simp: sysd_ok_def dir_ok_def)
  have v: "wrote v = None" "removed v = own_entry w" "base_after w (confs v)"
    using remove_own_effect [OF len, of w] mem
    by (auto simp: v_def own_entry_def base_after_def split: list.splits)
  have st: "and_then (sudo id) (and_then (sudo_tee_secret (put_conf ?q) d)
      (\<lambda>w. (Inr (), w\<lparr>wrote := Some ?q\<rparr>))) v = (r, w1)"
    using run by (simp add: stage_def v_def staged_path_def Let_def split: prod.splits)
  obtain r2 v2 where 2: "sudo id v = (r2, v2)" by fastforce
  have b2: "confs v2 = confs v" "wrote v2 = None" "removed v2 = own_entry w"
    using sudo_id [OF 2] v by (simp_all add: sysd_book_def)
  obtain r3 v3 where 3: "sudo_tee_secret (put_conf ?q) d v2 = (r3, v3)" by fastforce
  have wf2: "bt_wf (confs v2)" using base_after_wf [OF v(3) wf] b2 by simp
  note e = tee_secret_effect [OF 3 wf2]
  show ?thesis
  proof (cases r2)
    case (Inl e2)
    with st 2 have "r = Inl e2" "w1 = v2" by (simp_all add: and_then_def)
    with b2 v show ?thesis by (auto simp: staged_ok_def)
  next
    case (Inr x)
    show ?thesis
    proof (cases r3)
      case (Inl e3)
      with st 2 3 \<open>r2 = Inr x\<close> have "r = Inl e3" "w1 = v3" by (simp_all add: and_then_def)
      with e b2 v Inl show ?thesis by (auto simp: staged_ok_def)
    next
      case (Inr y)
      with st 2 3 \<open>r2 = Inr x\<close> have "r = Inr ()" "w1 = v3\<lparr>wrote := Some ?q\<rparr>" by (simp_all add: and_then_def)
      with e b2 v Inr show ?thesis by (auto simp: staged_ok_def)
    qed
  qed
qed

lemma own_entry_get:
  assumes "sysd_ok w" and "own_entry w = Some (p, c)"
  shows "bt_get (confs w) p = Some c \<and> fst (collect_dropins w) = [p]"
proof -
  from assms have ours: "fst (collect_dropins w) = [p]" and c: "c = read_dropin w p"
    by (auto simp: own_entry_def sysd_ok_def split: list.splits)
  then have "p \<in> fst ` set (confs w)"
    using collect_dropins_iff(1) [of p w] by simp
  then obtain c' where "bt_get (confs w) p = Some c'" by (auto simp: bt_mem_keys)
  with assms c ours show ?thesis by (simp add: sysd_ok_def read_dropin_get)
qed

lemma staged_path_absent:
  assumes "sysd_ok w"
  shows "bt_get (confs w) (staged_path w) = None \<or> (\<exists>c. own_entry w = Some (staged_path w, c))"
proof (cases "staged_path w \<in> fst ` set (confs w)")
  case True
  with assms have "staged_path w \<in> set (fst (collect_dropins w))"
    by (simp add: staged_path_fresh sysd_ok_def)
  with assms show ?thesis by (auto simp: own_entry_def sysd_ok_def split: list.splits)
qed (simp add: bt_mem_keys)

lemma rollback_effect:
  assumes run: "rollback u w2 = (Inr (), w3)" and wf: "bt_wf (confs w2)"
  shows "confs w3 =
    (let x = (case wrote w2 of None \<Rightarrow> confs w2 | Some q \<Rightarrow> bt_remove q (confs w2))
     in case removed w2 of None \<Rightarrow> x | Some (p, c) \<Rightarrow> bt_insert p c x)"
proof -
  from run obtain v where 1: "undo_write w2 = (Inr (), v)" and 2: "undo_remove v = (Inr (), w3)"
    unfolding rollback_def by (rule and_then_OkE)
  have v: "confs v = (case wrote w2 of None \<Rightarrow> confs w2 | Some q \<Rightarrow> bt_remove q (confs w2))"
    "removed v = removed w2"
    using 1 by (auto simp: undo_write_def del_conf_def split: option.splits elim!: sudo_cases)
  then have wfv: "bt_wf (confs v)" using wf by (auto simp: bt.wf_rem split: option.splits)
  show ?thesis
  proof (cases "removed w2")
    case None
    with 2 v show ?thesis by (simp add: undo_remove_def Let_def)
  next
    case (Some pc)
    obtain p c where pc: "pc = (p, c)" by fastforce
    from 2 Some v pc have "sudo_tee_secret (put_conf p) c (v\<lparr>removed := None\<rparr>) = (Inr (), w3)"
      by (simp add: undo_remove_def)
    from tee_secret_effect [OF this] wfv v Some pc show ?thesis by (simp add: Let_def)
  qed
qed

lemma systemd_restore:
  assumes ok: "sysd_ok w" and st: "stage u d w = (r, w1)" and b: "sysd_book w2 = sysd_book w1"
    and rb: "rollback u w2 = (Inr (), w3)"
  shows "conf_within (confs w) (confs w3) \<and> (r = Inr () \<longrightarrow> confs w3 = confs w)"
proof -
  obtain x where x: "staged_ok w d r w1 x" using stage_effect [OF ok st] by blast
  have wf: "bt_wf (confs w)" using ok by (simp add: sysd_ok_def dir_ok_def)
  have wfx: "bt_wf x" using x wf base_after_wf by (auto simp: staged_ok_def)
  have b2: "confs w2 = confs w1" "wrote w2 = wrote w1" "removed w2 = own_entry w"
    using b x by (auto simp: sysd_book_def staged_ok_def)
  have wf1: "bt_wf (confs w1)" using x wfx by (auto simp: staged_ok_def bt.wf_ins split: if_splits)
  define y where "y = (if r = Inr () then bt_remove (staged_path w) (confs w1) else confs w1)"
  have wfy: "bt_wf y" using wf1 by (simp add: y_def bt.wf_rem)
  have y: "(case wrote w2 of None \<Rightarrow> confs w2 | Some q \<Rightarrow> bt_remove q (confs w2)) = y"
    using x b2 by (auto simp: y_def staged_ok_def)
  have w3: "confs w3 = (case own_entry w of None \<Rightarrow> y | Some (p, c) \<Rightarrow> bt_insert p c y)"
    using rollback_effect [OF rb] wf1 b2(1) unfolding Let_def y b2(3) by simp
  have gy: "bt_get y k = bt_get x k" if "k \<noteq> staged_path w" for k
    using that x wf1 wfx by (auto simp: y_def staged_ok_def bt_simps split: if_splits)
  have gx: "bt_get x k = bt_get (confs w) k" if "\<forall>c. own_entry w \<noteq> Some (k, c)" for k
    using that x wf by (auto simp: staged_ok_def base_after_def bt_simps)
  have same: "bt_get (confs w3) k = bt_get (confs w) k"
    if "k \<noteq> staged_path w \<or> (\<exists>c. own_entry w = Some (k, c))" for k
  proof (cases "\<exists>c. own_entry w = Some (k, c)")
    case True
    then obtain c where c: "own_entry w = Some (k, c)" by blast
    with own_entry_get [OF ok c] w3 wfy show ?thesis by (simp add: bt_simps)
  next
    case False
    with that gy gx have "bt_get y k = bt_get (confs w) k" by auto
    with False w3 wfy show ?thesis by (auto simp: bt_simps split: option.splits)
  qed
  have "conf_within (confs w) (confs w3)"
    using same staged_path_absent [OF ok] unfolding conf_within_def by (metis option.distinct(1))
  moreover have "confs w3 = confs w" if "r = Inr ()"
  proof (rule bt.ext)
    show "bt_wf (confs w3)" "bt_wf (confs w)"
      using w3 wfy wf by (auto simp: bt.wf_ins split: option.splits)
    show "bt_get (confs w3) k = bt_get (confs w) k" for k
    proof (cases "k \<noteq> staged_path w \<or> (\<exists>c. own_entry w = Some (k, c))")
      case True
      then show ?thesis by (rule same)
    next
      case False
      then have "bt_get (confs w) k = None" using staged_path_absent [OF ok] by auto
      moreover have "bt_get y k = None" using False that wf1 by (simp add: y_def bt_simps)
      ultimately show ?thesis using False w3 wfy by (auto simp: bt_simps split: option.splits)
    qed
  qed
  ultimately show ?thesis by blast
qed

lemma bt_mem_get: "bt_wf m \<Longrightarrow> f \<in> set m \<longleftrightarrow> bt_get m (fst f) = Some (snd f)"
proof -
  assume "bt_wf m"
  then have "distinct (map fst m)" by (auto simp: bt_wf_def strict_sorted_iff)
  then show ?thesis by (cases f) (simp add: bt_get_map_of)
qed

lemma foreign_below:
  assumes ok: "sysd_ok w" and f: "f \<in> set (confs w)" and n: "not_ours f"
  shows "snd (fst f) < snd (staged_path w)"
proof -
  have "read_dropin w (fst f) = snd f"
    using ok f by (intro read_dropin_get) (auto simp: sysd_ok_def dir_ok_def bt_mem_get)
  moreover have "r \<in> {Usr_lib, Lib} \<Longrightarrow> \<not> writable w r" for r
    by (auto simp: writable_def install_root_def)
  ultimately have "snd (fst f) \<in> set (snd (collect_dropins w))"
    using f n unfolding collect_dropins_iff(2) by (intro exI [of _ "fst f"]) (auto simp: not_ours_def)
  then show ?thesis by (simp add: staged_path_def winning_name_above)
qed

lemma systemd_wins:
  assumes ok: "sysd_ok w" and st: "stage u d w = (Inr (), w1)"
  shows "conf_wins d (confs w1)"
proof -
  let ?q = "staged_path w"
  obtain x where x: "staged_ok w d (Inr ()) w1 x" using stage_effect [OF ok st] by blast
  have wf: "bt_wf (confs w)" using ok by (simp add: sysd_ok_def dir_ok_def)
  have wfx: "bt_wf x" using x wf base_after_wf by (auto simp: staged_ok_def)
  have c: "confs w1 = bt_insert ?q d x" using x by (simp add: staged_ok_def)
  have "snd (fst f) < snd ?q" if f: "f \<in> set (confs w1)" "fst f \<noteq> ?q" "not_ours f" for f
  proof -
    from f c wfx have "bt_get x (fst f) = Some (snd f)" by (simp add: bt_mem_get bt_simps)
    with x wf have "bt_get (confs w) (fst f) = Some (snd f)"
      by (auto simp: staged_ok_def base_after_def bt_simps split: if_splits)
    with wf f(3) show ?thesis by (intro foreign_below [OF ok]) (simp_all add: bt_mem_get)
  qed
  moreover have "is_conf (snd ?q)" using ok staged_path_conf by (simp add: sysd_ok_def)
  ultimately show ?thesis unfolding conf_wins_def using c wfx by (intro exI [of _ ?q]) (simp add: bt_simps)
qed

lemma reload_restart_effect:
  assumes "reload_restart u w = (r, w')"
  shows "sysd_book w' = sysd_book w \<and> (r = Inr () \<longrightarrow> service w' = Some (confs w))"
proof -
  obtain r1 w1 where 1: "sudo id w = (r1, w1)" by fastforce
  obtain r2 w2 where 2: "sudo id w1 = (r2, w2)" by fastforce
  obtain r3 w3 where 3: "sudo start_service w2 = (r3, w3)" by fastforce
  from 3 have b3: "sysd_book w3 = sysd_book w2 \<and> (r3 = Inr () \<longrightarrow> service w3 = Some (confs w2))"
    by (rule sudo_cases) (simp_all add: start_service_def sysd_book_def)
  have "r = r1 \<and> w' = w1 \<and> r \<noteq> Inr () \<or> r = r3 \<and> w' = w3"
    using assms by (cases r1) (auto simp: reload_restart_def and_then_def attempt_def 1 2 3)
  with b3 sudo_id [OF 1] sudo_id [OF 2] show ?thesis by (auto simp: sysd_book_def)
qed

lemma read_dropin_replies [simp]: "read_dropin (w\<lparr>replies := ss\<rparr>) = read_dropin w"
  by (rule ext) (simp add: read_dropin_def split: option.split)

lemma collect_in_replies [simp]: "collect_in P (w\<lparr>replies := ss\<rparr>) rs = collect_in P w rs"
  by (induction rs)
    (simp_all add: scan_dropins_def conf_files_def writable_def install_root_def)

lemma http_served_frame:
  assumes "http_served w = (s, w')"
  shows "sysd_book w' = sysd_book w \<and> service w' = service w \<and> (sysd_ok w \<longrightarrow> sysd_ok w')"
  using assms by (cases "replies w")
    (auto simp: http_served_def sysd_book_def sysd_ok_def dir_ok_def collect_dropins_def)

lemma http_healthy_frame:
  "http_healthy w = (b, w') \<Longrightarrow> sysd_book w' = sysd_book w \<and> service w' = service w"
  by (cases "probes w") (auto simp: http_healthy_def sysd_book_def)

lemmas systemd_sel = systemd_def http_health_def actuator.simps health.simps id_def

interpretation sd: swap_env systemd http_health sysd_ok sysd_book confs service conf_within conf_wins
proof
  show "h_healthy http_health w = (b, w') \<Longrightarrow> sysd_book w' = sysd_book w \<and> service w' = service w" for w b w'
    by (rule http_healthy_frame) (simp add: systemd_sel)
  show "h_served http_health w = (s, w') \<Longrightarrow>
      sysd_book w' = sysd_book w \<and> service w' = service w \<and> (sysd_ok w \<longrightarrow> sysd_ok w')" for w s w'
    by (rule http_served_frame) (simp add: systemd_sel)
  show "sysd_book (h_warm http_health w) = sysd_book w \<and> service (h_warm http_health w) = service w" for w
    by (simp add: systemd_sel)
  show "sysd_book (h_pause http_health w) = sysd_book w \<and> service (h_pause http_health w) = service w" for w
    by (simp add: systemd_sel)
  show "sysd_book w = sysd_book w' \<Longrightarrow> confs w = confs w'" for w w'
    by (simp add: sysd_book_def)
  show "a_restart systemd u w = (r, w') \<Longrightarrow>
      sysd_book w' = sysd_book w \<and> (r = Inr () \<longrightarrow> service w' = Some (confs w))" for u w r w'
    by (rule reload_restart_effect [of u]) (simp add: systemd_sel)
  show "a_commit systemd w = (r, w') \<Longrightarrow> confs w' = confs w \<and> service w' = service w" for w r w'
    by (auto simp: systemd_sel commit_def)
  show "sysd_ok w \<Longrightarrow> a_stage systemd u d w = (Inr (), w1) \<Longrightarrow> conf_wins d (confs w1)" for w u d w1
    by (rule systemd_wins [of _ u]) (simp_all add: systemd_sel)
  show "sysd_ok w \<Longrightarrow> a_stage systemd u d w = (r, w1) \<Longrightarrow> sysd_book w2 = sysd_book w1 \<Longrightarrow>
      a_rollback systemd u w2 = (Inr (), w3) \<Longrightarrow>
      conf_within (confs w) (confs w3) \<and> (r = Inr () \<longrightarrow> confs w3 = confs w)" for w u d r w1 w2 w3
    by (rule systemd_restore [of _ u d _ w1 w2]) (simp_all add: systemd_sel)
qed

section \<open>What a swap on systemd guarantees\<close>


definition demo_opts :: swap_opts where
  "demo_opts = \<lparr>o_host = ''0.0.0.0'', o_port = 8080, o_attempts = 2, o_prewarm = False, o_base_env = []\<rparr>"

definition demo_sysd :: "bool list \<Rightarrow> sysd" where
  "demo_sysd ps = \<lparr>confs = [((Etc, ''other.conf''), ''[Service]'')], etc_rw = True, wrote = None, removed = None,
     backup = None, keyfile = None, service = None, sfaults = [], unreadable = [], probes = ps, replies = [Some ''old'']\<rparr>"

definition demo_bin :: profile where
  "demo_bin = demo_profile\<lparr>bin := ''/b/s'', build_ref := None, flags := []\<rparr>"

abbreviation demo_swap :: "bool list \<Rightarrow> (swap_error + swap_outcome) \<times> sysd" where
  "demo_swap ps \<equiv> swap (\<lambda>_ _. None) (\<lambda>_. None) systemd http_health ''u'' demo_model demo_bin [] demo_opts (demo_sysd ps)"

lemma demo_sysd_ok: "sysd_ok (demo_sysd ps)"
  by (simp add: sysd_ok_def demo_sysd_def dir_ok_def) code_simp

lemma demo_collect: "collect_dropins (demo_sysd ps\<lparr>replies := ss\<rparr>) = ([], [''other.conf''])"
proof -
  have "collect_dropins (demo_sysd ps) = ([], [''other.conf''])" by code_simp
  then show ?thesis by (simp add: collect_dropins_def)
qed

lemma demo_name: "winning_name [''other.conf''] = ''zzzzzz-llmtune.conf''"
  by code_simp

lemma demo_launch: "launch (\<lambda>_ _. None) (\<lambda>_. None) demo_bin = (''/b/s'', ld_path demo_profile)"
  by (simp add: launch_def managed_def demo_bin_def)

lemmas demo_eval = systemd_sel swap_def Let_def http_served_def demo_launch sep_def demo_opts_def demo_model_def
  stage_def demo_name remove_own_def and_then_def sudo_def sudo_tee_secret_def sudo_tee_def install_root_def
  reload_restart_def attempt_def start_service_def put_conf_def settle_def finish_ok_def commit_def
  http_healthy_def numeral_2_eq_2 failed_def revert_def rollback_def undo_write_def undo_remove_def del_conf_def
  is_ok_def

lemma demo_stage: "is_ok (fst (stage ''u'' d (snd (http_served (demo_sysd ps)))))"
proof -
  have "snd (http_served (demo_sysd ps)) = demo_sysd ps\<lparr>replies := []\<rparr>"
    by (simp add: http_served_def demo_sysd_def)
  then show ?thesis
    by (simp add: demo_collect demo_eval) (simp add: demo_sysd_def demo_eval)
qed

lemma demo_swap_ok: "\<exists>out w'. demo_swap [True] = (Inr out, w') \<and> s_ok out \<and> s_detail out = Loaded"
proof -
  have "http_served (demo_sysd [True]) = (Some ''old'', demo_sysd [True]\<lparr>replies := []\<rparr>)"
    by (simp add: http_served_def demo_sysd_def)
  then show ?thesis
    by (simp add: demo_collect demo_eval) (simp add: demo_sysd_def demo_eval)
qed

lemma demo_swap_bad: "\<exists>out w'. demo_swap [False, False] = (Inr out, w') \<and> s_reverted out"
proof -
  have "http_served (demo_sysd [False, False]) = (Some ''old'', demo_sysd [False, False]\<lparr>replies := []\<rparr>)"
    by (simp add: http_served_def demo_sysd_def)
  then show ?thesis
    by (simp add: demo_collect demo_eval) (simp add: demo_sysd_def demo_eval)
qed


lemma http_listed: "listed http_health probes"
  by (auto simp: listed_def systemd_sel http_healthy_def split: list.splits)

lemma poll_health_bounded_witness:
  "fst (poll_health http_health 3 (demo_sysd [False, True, False])) \<and>
   length (probes (snd (poll_health http_health 3 (demo_sysd [False, True, False])))) = 1"
proof -
  have p: "probes (demo_sysd [False, True, False]) = [False, True, False]" by (simp add: demo_sysd_def)
  have "fst (poll_health http_health 3 (demo_sysd [False, True, False]))"
    using poll_health_bounded [OF http_listed, of 3 "demo_sysd [False, True, False]"] by (simp add: p)
  moreover have "probes (snd (poll_health http_health 3 (demo_sysd [False, True, False]))) = [False]"
    by (simp add: numeral_3_eq_3 systemd_sel http_healthy_def demo_sysd_def)
  ultimately show ?thesis by simp
qed

section \<open>Unloading\<close>

lemma remove_all_effect:
  assumes "remove_all ps w = (Inr (), w')" and "bt_wf (confs w)"
  shows "confs w' = filter (\<lambda>f. fst f \<notin> set ps) (confs w)"
  using assms
proof (induction ps arbitrary: w)
  case Nil
  then show ?case by simp
next
  case (Cons p ps)
  then obtain v where 1: "sudo (del_conf p) w = (Inr (), v)" and 2: "remove_all ps v = (Inr (), w')"
    by (auto elim!: and_then_OkE)
  from 1 have v: "confs v = filter (\<lambda>f. fst f \<noteq> p) (confs w)"
    by (rule sudo_cases) (simp_all add: del_conf_def bt_remove_filter Cons.prems(2))
  with Cons.IH [OF 2] Cons.prems(2) show ?case by (auto simp: bt_wf_filter intro: filter_cong)
qed

lemma clear_dropin_effect:
  assumes "clear_dropin u w = (Inr (), w')" and "dir_ok w" and "unreadable w = []"
  shows "confs w' = filter (\<lambda>(k, c). \<not> (is_conf (snd k) \<and> writable w (fst k) \<and> contains c llmtune_prefix)) (confs w) \<and>
    service w' = Some (confs w')"
proof -
  let ?ps = "fst (collect_dropins_llmtune w)"
  have wf: "bt_wf (confs w)" using assms(2) by (simp add: dir_ok_def)
  from assms(1) obtain v where 1: "remove_all ?ps w = (Inr (), v)" and 2: "reload_restart u v = (Inr (), w')"
    unfolding clear_dropin_def by (rule and_then_OkE)
  have mem: "k \<in> set ?ps \<longleftrightarrow> is_conf (snd k) \<and> writable w (fst k) \<and> contains c llmtune_prefix"
    if "(k, c) \<in> set (confs w)" for k c
  proof -
    have "read_dropin w k = c"
      using that wf assms(3) by (intro read_dropin_get) (simp_all add: bt_mem_get)
    moreover have "k \<in> fst ` set (confs w)" using that by force
    ultimately show ?thesis by (auto simp: collect_dropins_llmtune_def collect_iff)
  qed
  have "confs w' = confs v" "service w' = Some (confs w')"
    using reload_restart_effect [OF 2] by (auto simp: sysd_book_def)
  moreover have "confs v = filter (\<lambda>(k, c). \<not> (is_conf (snd k) \<and> writable w (fst k) \<and> contains c llmtune_prefix)) (confs w)"
    unfolding remove_all_effect [OF 1 wf] using mem by (intro filter_cong) auto
  ultimately show ?thesis by simp
qed



section \<open>Limits of the rollback\<close>

text \<open>With two drop-ins of ours, staging deletes both and the rollback restores only the first.\<close>

lemma rollback_loses_second_dropin:
  "let w = demo_sysd []\<lparr>confs := [((Etc, ''a.conf''), marker), ((Run, ''b.conf''), marker)]\<rparr>;
       (r, w1) = stage ''u'' ''d'' w; (r', w2) = rollback ''u'' w1
   in is_ok r \<and> is_ok r' \<and> confs w2 = [((Etc, ''a.conf''), marker)]"
  by code_simp

text \<open>
  When \<open>tee\<close> fails, the path staged to is not remembered, so the rollback succeeds and leaves the
  beginning of the new drop-in behind, under the name that wins the merge.
\<close>

lemma failed_tee_leaves_partial_dropin:
  "let w = demo_sysd []\<lparr>sfaults := [Io_ok, Io_ok, Io_fail 4]\<rparr>;
       (r, w1) = stage ''u'' ''[Service]'' w; (r', w2) = rollback ''u'' w1
   in \<not> is_ok r \<and> is_ok r' \<and>
      confs w2 = [((Etc, ''other.conf''), ''[Service]''), ((Etc, ''zzzzzz-llmtune.conf''), ''[Ser'')]"
  by code_simp

text \<open>While the terminal interface runs, sudo is always told not to prompt.\<close>

lemma sudo_argv_no_prompt:
  "args \<noteq> [] \<Longrightarrow> sudo_argv False True args = Some (''sudo'' # ''-n'' # args)"
  by (simp add: sudo_argv_def privileged_argv_def must_be_noninteractive_def)

end
