(* ===== verification/Config.thy ===== *)
theory Config
  imports Ipv4
begin

text \<open>
  The fleet configuration (src/src/config.rs): the parsed \<open>fleet.toml\<close> is a \<open>raw_config\<close>, and
  \<open>from_raw\<close> turns it into the resolved configuration, applying defaults and rejecting values that
  would be unsafe in an argument vector, a path or a generated file. Parsing TOML (toml crate), the
  environment and the probes of the host are parameters.
\<close>

section \<open>Parsed configuration\<close>

datatype transport = Local | Ssh | Agent

record defaults =
  d_models_dir :: "string option"
  d_llama_unit :: "string option"
  d_llama_url :: "string option"

record node_cfg =
  c_name :: string
  c_host :: "string option"
  c_transport :: "string option"
  c_ssh_user :: "string option"
  c_ssh_key :: "string option"
  c_models_dir :: "string option"
  c_llama_unit :: "string option"
  c_llama_url :: "string option"
  c_power_cmd :: "string option"

record cluster_cfg =
  k_name :: string
  k_head :: string
  k_workers :: "string list"
  k_rpc_port :: u16
  k_rpc_bin :: "string option"
  k_rpc_bind :: "string option"

record netboot_cfg =
  b_interface :: "string option"
  b_server_ip :: "string option"
  b_subnet :: "string option"
  b_prefix_len :: "u8 option"
  b_http_port :: "u16 option"
  b_rootfs :: "string option"
  b_tftp_root :: "string option"
  b_kernel :: "string option"
  b_initrd :: "string option"
  b_oc_profile :: "string option"
  b_leases :: "string option"
  b_mac_ouis :: "string list"
  b_hostname_prefix :: "string option"
  b_lan_cidr :: "string option"
  b_models_dir :: "string option"
  b_dnsmasq :: "bool option"
  b_console_port :: "u16 option"
  b_iso :: "string option"
  b_work_dir :: "string option"
  b_ssh_pubkey :: "string option"
  b_ttm_gtt_gb :: "u32 option"
  b_flake :: "string option"
  b_nix_cmd :: "string option"
  b_image_variant :: "string option"
  b_images_dir :: "string option"

record raw_config =
  r_defaults :: defaults
  r_nodes :: "node_cfg list"
  r_clusters :: "cluster_cfg list"
  r_netboot :: "netboot_cfg option"

section \<open>Resolved configuration\<close>

record node =
  n_name :: string
  n_host :: "string option"
  n_transport :: transport
  n_ssh_user :: "string option"
  n_ssh_key :: "string option"
  n_models_dir :: string
  n_llama_unit :: string
  n_llama_url :: string
  n_power_cmd :: "string option"

record netboot =
  nb_interface :: string
  nb_server_ip :: string
  nb_subnet :: string
  nb_prefix_len :: u8
  nb_http_port :: u16
  nb_rootfs :: string
  nb_tftp_root :: string
  nb_kernel :: string
  nb_initrd :: string
  nb_oc_profile :: string
  nb_leases :: string
  nb_mac_ouis :: "string list"
  nb_hostname_prefix :: string
  nb_lan_cidr :: string
  nb_models_dir :: string
  nb_dnsmasq :: bool
  nb_console_port :: u16
  nb_iso :: "string option"
  nb_work_dir :: string
  nb_ssh_pubkey :: "string option"
  nb_ttm_gtt_gb :: u32
  nb_flake :: "string option"
  nb_nix_cmd :: string
  nb_image_variant :: "string option"
  nb_images_dir :: string

record config =
  cfg_nodes :: "node list"
  cfg_clusters :: "cluster_cfg list"
  cfg_netboot :: "netboot option"

datatype config_error =
    Unknown_transport string string
  | Bad_host string
  | Bad_ssh_user string
  | Bad_unit string string
  | Empty_power_cmd string
  | Bad_default_unit string
  | Bad_rpc_bin string
  | Bad_rpc_bind string
  | Undetected string
  | Invalid string
  | Reading string
  | Parsing string
  | Not_found string

section \<open>Nodes\<close>

definition parse_transport :: "string option \<Rightarrow> string + transport" where
  "parse_transport s =
     (case map_option lower s of
        None \<Rightarrow> Inr Local
      | Some t \<Rightarrow>
          if t = [] \<or> t = ''local'' then Inr Local
          else if t = ''ssh'' then Inr Ssh
          else if t = ''agent'' then Inr Agent
          else Inl t)"

definition unit_char :: "char \<Rightarrow> bool" where
  "unit_char c \<longleftrightarrow> is_alnum c \<or> c \<in> set '':_@.-''"

definition valid_unit_name :: "string \<Rightarrow> bool" where
  "valid_unit_name s \<longleftrightarrow>
     s \<noteq> [] \<and> ends_with s ''.service'' \<and> CHR ''/'' \<notin> set s \<and> \<not> contains s ''..'' \<and> list_all unit_char s"

definition dash :: "string option \<Rightarrow> bool" where
  "dash s = (case s of None \<Rightarrow> False | Some v \<Rightarrow> starts_with v ''-'')"

definition or_else :: "'a option \<Rightarrow> 'a \<Rightarrow> 'a" where
  "or_else x d = (case x of None \<Rightarrow> d | Some v \<Rightarrow> v)"

definition resolve_node :: "string \<Rightarrow> string \<Rightarrow> string \<Rightarrow> node_cfg \<Rightarrow> config_error + node" where
  "resolve_node dm du dl n =
     (case parse_transport (c_transport n) of
        Inl t \<Rightarrow> Inl (Unknown_transport (c_name n) t)
      | Inr tr \<Rightarrow>
          try_then (guard_err (\<not> dash (c_host n)) (Bad_host (c_name n))) (\<lambda>_.
          try_then (guard_err (\<not> dash (c_ssh_user n)) (Bad_ssh_user (c_name n))) (\<lambda>_.
            let u = or_else (c_llama_unit n) du in
            try_then (guard_err (valid_unit_name u) (Bad_unit (c_name n) u)) (\<lambda>_.
            try_then (guard_err (case c_power_cmd n of None \<Rightarrow> True | Some c \<Rightarrow> trim c \<noteq> []) (Empty_power_cmd (c_name n))) (\<lambda>_.
              Inr \<lparr>n_name = c_name n, n_host = c_host n, n_transport = tr, n_ssh_user = c_ssh_user n,
                n_ssh_key = c_ssh_key n, n_models_dir = or_else (c_models_dir n) dm, n_llama_unit = u,
                n_llama_url = or_else (c_llama_url n) dl, n_power_cmd = c_power_cmd n\<rparr>)))))"

fun resolve_nodes :: "string \<Rightarrow> string \<Rightarrow> string \<Rightarrow> node_cfg list \<Rightarrow> config_error + node list" where
  "resolve_nodes dm du dl [] = Inr []"
| "resolve_nodes dm du dl (n # ns) =
     try_then (resolve_node dm du dl n) (\<lambda>x. try_then (resolve_nodes dm du dl ns) (\<lambda>xs. Inr (x # xs)))"

definition localhost :: "string \<Rightarrow> string \<Rightarrow> string \<Rightarrow> node" where
  "localhost dm du dl =
     \<lparr>n_name = ''localhost'', n_host = None, n_transport = Local, n_ssh_user = None, n_ssh_key = None,
      n_models_dir = dm, n_llama_unit = du, n_llama_url = dl, n_power_cmd = None\<rparr>"

definition bad_arg :: "string option \<Rightarrow> bool" where
  "bad_arg s = (case s of None \<Rightarrow> False | Some v \<Rightarrow> v = [] \<or> starts_with v ''-'')"

fun check_clusters :: "cluster_cfg list \<Rightarrow> config_error + unit" where
  "check_clusters [] = Inr ()"
| "check_clusters (c # cs) =
     try_then (guard_err (\<not> bad_arg (k_rpc_bin c)) (Bad_rpc_bin (k_name c))) (\<lambda>_.
     try_then (guard_err (\<not> bad_arg (k_rpc_bind c)) (Bad_rpc_bind (k_name c))) (\<lambda>_. check_clusters cs))"

section \<open>Netboot\<close>

definition token_char :: "char \<Rightarrow> bool" where
  "token_char c \<longleftrightarrow> is_alnum c \<or> c \<in> set ''.:_-''"

definition safe_token :: "string \<Rightarrow> bool" where
  "safe_token s \<longleftrightarrow> s \<noteq> [] \<and> \<not> starts_with s ''-'' \<and> list_all token_char s"

definition safe_abs_path :: "string \<Rightarrow> bool" where
  "safe_abs_path s \<longleftrightarrow> starts_with s ''/'' \<and> \<not> contains s ''..'' \<and>
     CHR 0x0A \<notin> set s \<and> CHR 0x00 \<notin> set s \<and> CHR 0x0D \<notin> set s"

definition default_leases_from :: "(string \<Rightarrow> bool) \<Rightarrow> string" where
  "default_leases_from is_file =
     (case find is_file [''/var/lib/misc/dnsmasq.leases'', ''/var/lib/dnsmasq/dnsmasq.leases''] of
        None \<Rightarrow> ''/var/lib/misc/dnsmasq.leases'' | Some p \<Rightarrow> p)"

definition hex_val :: "char \<Rightarrow> nat" where
  "hex_val c = (if is_digit c then code c - 48 else if code c \<le> 70 then code c - 55 else code c - 87)"

text \<open>\<open>u64::from_str_radix(_, 16)\<close>.\<close>

definition parse_hex64 :: "string \<Rightarrow> nat option" where
  "parse_hex64 s =
     (let ds = (if s \<noteq> [] \<and> hd s = CHR ''+'' then tl s else s); v = foldl (\<lambda>n c. 16 * n + hex_val c) 0 ds
      in if ds \<noteq> [] \<and> list_all is_hexdigit ds \<and> v \<le> max_u64 then Some v else None)"

definition route_up :: "string list \<Rightarrow> bool" where
  "route_up f \<longleftrightarrow> length f \<ge> 8 \<and> f ! 1 = ''00000000'' \<and> f ! 7 = ''00000000'' \<and>
     (case parse_hex64 (f ! 3) of None \<Rightarrow> False | Some fl \<Rightarrow> odd fl)"

definition default_route_dev :: "string \<Rightarrow> string option" where
  "default_route_dev r = map_option hd (find route_up (map split_ws (drop 1 (lines r))))"

definition detect_host_net :: "string option \<Rightarrow> string option \<Rightarrow> (string \<times> string) option" where
  "detect_host_net route lan =
     (case route of
        None \<Rightarrow> None
      | Some r \<Rightarrow>
          (case default_route_dev r of
             None \<Rightarrow> None
           | Some d \<Rightarrow> map_option (Pair d) lan))"

definition net_mask :: "nat \<Rightarrow> u32" where
  "net_mask p = (if p = 0 then 0 else push_bit (32 - min p 32) (- 1))"

definition subnet_base :: "u32 \<Rightarrow> nat \<Rightarrow> u32" where
  "subnet_base ip p = ip AND net_mask p"

definition explicit :: "string option \<Rightarrow> string option" where
  "explicit v = (case v of None \<Rightarrow> None | Some s \<Rightarrow> if s = [] then None else Some s)"

definition or_err :: "'a option \<Rightarrow> 'e \<Rightarrow> 'e + 'a" where
  "or_err x e = (case x of None \<Rightarrow> Inl e | Some v \<Rightarrow> Inr v)"

record net_part =
  np_interface :: string
  np_server_ip :: string
  np_subnet :: string
  np_prefix_len :: u8

definition resolve_net :: "(string \<times> string) option \<Rightarrow> netboot_cfg \<Rightarrow> config_error + net_part" where
  "resolve_net det n =
     (let ci = explicit (b_interface n); ca = explicit (b_server_ip n);
          found = (if ci = None \<or> ca = None then det else None)
      in try_then (case ci of Some v \<Rightarrow> Inr v | None \<Rightarrow> or_err (map_option fst found) (Undetected ''interface'')) (\<lambda>i.
         try_then (guard_err (safe_token i) (Invalid ''interface'')) (\<lambda>_.
         try_then (case ca of Some v \<Rightarrow> Inr v | None \<Rightarrow> or_err (map_option snd found) (Undetected ''server_ip'')) (\<lambda>a.
         try_then (or_err (parse_ipv4 a) (Invalid ''server_ip'')) (\<lambda>v4.
           let p = or_else (b_prefix_len n) 24 in
           try_then (guard_err (p \<le> 32) (Invalid ''prefix_len'')) (\<lambda>_.
             let s = (case explicit (b_subnet n) of Some v \<Rightarrow> v | None \<Rightarrow> show_ipv4 (subnet_base v4 (unat p))) in
             try_then (guard_err (is_ipv4 s) (Invalid ''subnet'')) (\<lambda>_.
               Inr \<lparr>np_interface = i, np_server_ip = a, np_subnet = s, np_prefix_len = p\<rparr>)))))))"

fun check_paths :: "(string \<times> string) list \<Rightarrow> config_error + unit" where
  "check_paths [] = Inr ()"
| "check_paths ((l, p) # ps) = try_then (guard_err (safe_abs_path p) (Invalid l)) (\<lambda>_. check_paths ps)"

definition opt_path :: "string \<Rightarrow> string option \<Rightarrow> (string \<times> string) list" where
  "opt_path l p = (case p of None \<Rightarrow> [] | Some v \<Rightarrow> [(l, v)])"

definition is_cidr :: "string \<Rightarrow> bool" where
  "is_cidr s = (case split_once CHR ''/'' s of
      None \<Rightarrow> False
    | Some (ip, l) \<Rightarrow> is_ipv4 ip \<and> (case parse_uint max_u8 l of None \<Rightarrow> False | Some k \<Rightarrow> k \<le> 32))"

definition nix_char :: "char \<Rightarrow> bool" where
  "nix_char c \<longleftrightarrow> is_alnum c \<or> c \<in> set ''/._-''"

definition nix_ok :: "string \<Rightarrow> bool" where
  "nix_ok s \<longleftrightarrow> s \<noteq> [] \<and> \<not> starts_with s ''-'' \<and> \<not> contains s ''..'' \<and> list_all nix_char s"

definition variant_char :: "char \<Rightarrow> bool" where
  "variant_char c \<longleftrightarrow> is_alnum c \<or> c \<in> set ''_-''"

definition image_variant :: "string option \<Rightarrow> config_error + string option" where
  "image_variant v =
     (case map_option trim v of
        None \<Rightarrow> Inr None
      | Some t \<Rightarrow>
          if t = [] then Inr None
          else if list_all variant_char t then Inr (Some t) else Inl (Invalid ''image_variant''))"

definition oc_profiles :: "string list" where
  "oc_profiles = [''eco'', ''balanced'', ''performance'']"

definition default_models :: string where
  "default_models = ''/var/lib/llmtune/models''"

definition resolve_netboot :: "(string \<Rightarrow> bool) \<Rightarrow> (string \<times> string) option \<Rightarrow> netboot_cfg \<Rightarrow> config_error + netboot" where
  "resolve_netboot is_file det n =
     try_then (resolve_net det n) (\<lambda>np.
       let tftp = or_else (b_tftp_root n) ''/srv/tftp'';
           rootfs = or_else (b_rootfs n) ''/srv/nfs/bc250-root'';
           kernel = or_else (b_kernel n) (tftp @ ''/vmlinuz'');
           initrd = or_else (b_initrd n) (tftp @ ''/initramfs-nfs.img'');
           oc = or_else (b_oc_profile n) ''balanced'';
           leases = or_else (b_leases n) (default_leases_from is_file)
       in try_then (check_paths [(''rootfs'', rootfs), (''tftp_root'', tftp), (''kernel'', kernel),
            (''initrd'', initrd), (''leases'', leases)]) (\<lambda>_.
          try_then (guard_err (oc \<in> set oc_profiles) (Invalid ''oc_profile'')) (\<lambda>_.
          try_then (guard_err (list_all safe_token (b_mac_ouis n)) (Invalid ''mac_oui'')) (\<lambda>_.
            let hp = or_else (b_hostname_prefix n) ''bc250'' in
            try_then (guard_err (safe_token hp) (Invalid ''hostname_prefix'')) (\<lambda>_.
              let lan = or_else (b_lan_cidr n) (np_subnet np @ ''/'' @ show_nat (unat (np_prefix_len np))) in
              try_then (guard_err (is_cidr lan) (Invalid ''lan_cidr'')) (\<lambda>_.
                let md = or_else (b_models_dir n) default_models;
                    wd = or_else (b_work_dir n) ''/var/lib/llmtune/netboot''
                in try_then (check_paths ([(''models_dir'', md)] @ opt_path ''iso'' (b_iso n) @
                     opt_path ''ssh_pubkey'' (b_ssh_pubkey n) @ [(''work_dir'', wd)])) (\<lambda>_.
                     let gtt = or_else (b_ttm_gtt_gb n) 12 in
                     try_then (guard_err (1 \<le> gtt \<and> gtt \<le> 16) (Invalid ''ttm_gtt_gb'')) (\<lambda>_.
                     try_then (check_paths (opt_path ''flake'' (b_flake n))) (\<lambda>_.
                       let nix = or_else (b_nix_cmd n) ''nix'' in
                       try_then (guard_err (nix_ok nix) (Invalid ''nix_cmd'')) (\<lambda>_.
                       try_then (image_variant (b_image_variant n)) (\<lambda>variant.
                         let imgs = or_else (b_images_dir n) (wd @ ''/images'') in
                         try_then (check_paths [(''images_dir'', imgs)]) (\<lambda>_.
                           Inr \<lparr>nb_interface = np_interface np, nb_server_ip = np_server_ip np,
                             nb_subnet = np_subnet np, nb_prefix_len = np_prefix_len np,
                             nb_http_port = or_else (b_http_port n) 8090, nb_rootfs = rootfs,
                             nb_tftp_root = tftp, nb_kernel = kernel, nb_initrd = initrd,
                             nb_oc_profile = oc, nb_leases = leases,
                             nb_mac_ouis = map lower (b_mac_ouis n), nb_hostname_prefix = hp,
                             nb_lan_cidr = lan, nb_models_dir = md,
                             nb_dnsmasq = or_else (b_dnsmasq n) False,
                             nb_console_port = or_else (b_console_port n) 6666, nb_iso = b_iso n,
                             nb_work_dir = wd, nb_ssh_pubkey = b_ssh_pubkey n, nb_ttm_gtt_gb = gtt,
                             nb_flake = b_flake n, nb_nix_cmd = nix, nb_image_variant = variant,
                             nb_images_dir = imgs\<rparr>))))))))))))"

definition export_cidr :: "netboot \<Rightarrow> string" where
  "export_cidr nb = nb_subnet nb @ ''/'' @ show_nat (unat (nb_prefix_len nb))"

definition http_base :: "netboot \<Rightarrow> string" where
  "http_base nb = ''http://'' @ nb_server_ip nb @ '':'' @ show_nat (unat (nb_http_port nb))"

section \<open>The whole file\<close>

text \<open>\<open>dm0\<close> is \<open>default_models_dir()\<close>, the environment's or the standard directory.\<close>

definition from_raw :: "string \<Rightarrow> (string \<Rightarrow> bool) \<Rightarrow> (string \<times> string) option \<Rightarrow> raw_config \<Rightarrow> config_error + config" where
  "from_raw dm0 is_file det raw =
     (let d = r_defaults raw; dm = or_else (d_models_dir d) dm0;
          du = or_else (d_llama_unit d) ''llama-server.service'';
          dl = or_else (d_llama_url d) ''http://127.0.0.1:8080''
      in try_then (resolve_nodes dm du dl (r_nodes raw)) (\<lambda>ns.
         try_then (guard_err (ns = [] \<longrightarrow> valid_unit_name du) (Bad_default_unit du)) (\<lambda>_.
         try_then (check_clusters (r_clusters raw)) (\<lambda>_.
         try_then (case r_netboot raw of
             None \<Rightarrow> Inr None
           | Some n \<Rightarrow> try_then (resolve_netboot is_file det n) (\<lambda>nb. Inr (Some nb))) (\<lambda>nb.
           Inr \<lparr>cfg_nodes = (if ns = [] then [localhost dm du dl] else ns),
                cfg_clusters = r_clusters raw, cfg_netboot = nb\<rparr>)))))"

definition empty_raw :: raw_config where
  "empty_raw = \<lparr>r_defaults = \<lparr>d_models_dir = None, d_llama_unit = None, d_llama_url = None\<rparr>,
     r_nodes = [], r_clusters = [], r_netboot = None\<rparr>"

definition load_config :: "(string \<Rightarrow> raw_config option) \<Rightarrow> (string \<Rightarrow> bool) \<Rightarrow> (string \<Rightarrow> string option)
    \<Rightarrow> string \<Rightarrow> (string \<times> string) option \<Rightarrow> string option \<Rightarrow> string option \<Rightarrow> config_error + config" where
  "load_config parse_toml is_file read_file dm0 det default_path path =
     (let p = (case path of Some p \<Rightarrow> Some p | None \<Rightarrow> default_path) in
      try_then (case p of
          None \<Rightarrow> Inr empty_raw
        | Some f \<Rightarrow>
            if is_file f
            then try_then (or_err (read_file f) (Reading f)) (\<lambda>t. or_err (parse_toml t) (Parsing f))
            else if path \<noteq> None then Inl (Not_found f)
            else Inr empty_raw) (from_raw dm0 is_file det))"

definition local_node :: "config \<Rightarrow> node" where
  "local_node c = (case find (\<lambda>n. n_transport n = Local) (cfg_nodes c) of Some n \<Rightarrow> n | None \<Rightarrow> hd (cfg_nodes c))"

definition find_node :: "config \<Rightarrow> string \<Rightarrow> node option" where
  "find_node c nm = find (\<lambda>n. n_name n = nm) (cfg_nodes c)"

definition find_cluster :: "config \<Rightarrow> string \<Rightarrow> cluster_cfg option" where
  "find_cluster c nm = find (\<lambda>k. k_name k = nm) (cfg_clusters c)"

section \<open>What resolution guarantees\<close>

lemma is_ok_try: "is_ok (try_then r f) \<longleftrightarrow> (\<exists>a. r = Inr a \<and> is_ok (f a))"
  by (cases r) auto

lemma is_ok_ex: "is_ok r \<longleftrightarrow> (\<exists>a. r = Inr a)"
  by (cases r) auto

definition node_cfg_ok :: "string \<Rightarrow> node_cfg \<Rightarrow> bool" where
  "node_cfg_ok du n \<longleftrightarrow> is_ok (parse_transport (c_transport n)) \<and> \<not> dash (c_host n) \<and> \<not> dash (c_ssh_user n) \<and>
     valid_unit_name (or_else (c_llama_unit n) du) \<and> (\<forall>c. c_power_cmd n = Some c \<longrightarrow> trim c \<noteq> [])"

text \<open>What a resolved node promises to its users: no option injection, a unit name that is one component.\<close>

definition node_safe :: "node \<Rightarrow> bool" where
  "node_safe n \<longleftrightarrow> \<not> dash (n_host n) \<and> \<not> dash (n_ssh_user n) \<and>
     ends_with (n_llama_unit n) ''.service'' \<and> (\<forall>d. file_name (d @ sep # n_llama_unit n) = Some (n_llama_unit n)) \<and>
     (\<forall>c. n_power_cmd n = Some c \<longrightarrow> trim c \<noteq> [])"

lemma valid_unit_plain: "valid_unit_name u \<Longrightarrow> plain_name u"
  by (auto simp: valid_unit_name_def plain_name_def sep_def suffix_def)

lemma resolve_node_iff:
  "is_ok (resolve_node dm du dl n) \<longleftrightarrow> node_cfg_ok du n"
  by (auto simp: resolve_node_def node_cfg_ok_def is_ok_ex try_then_Inr Let_def split: sum.splits option.splits)

lemma resolve_node_safe:
  assumes "resolve_node dm du dl n = Inr x"
  shows "node_safe x \<and> n_name x = c_name n"
proof -
  from assms have "valid_unit_name (n_llama_unit x)" and r: "n_name x = c_name n" "\<not> dash (n_host x)"
      "\<not> dash (n_ssh_user x)" "\<forall>c. n_power_cmd x = Some c \<longrightarrow> trim c \<noteq> []"
    by (auto simp: resolve_node_def try_then_Inr Let_def split: sum.splits option.splits)
  then show ?thesis
    using file_name_plain_dir [OF valid_unit_plain] by (auto simp: node_safe_def valid_unit_name_def)
qed

lemma resolve_nodes_iff: "is_ok (resolve_nodes dm du dl ns) \<longleftrightarrow> list_all (node_cfg_ok du) ns"
proof (induction ns)
  case (Cons n ns)
  then show ?case using resolve_node_iff [of dm du dl n] by (auto simp: is_ok_ex try_then_Inr)
qed simp

lemma resolve_nodes_safe:
  "resolve_nodes dm du dl ns = Inr xs \<Longrightarrow> list_all node_safe xs \<and> map n_name xs = map c_name ns"
  by (induction ns arbitrary: xs) (auto simp: try_then_Inr dest: resolve_node_safe)

definition cluster_ok :: "cluster_cfg \<Rightarrow> bool" where
  "cluster_ok c \<longleftrightarrow> \<not> bad_arg (k_rpc_bin c) \<and> \<not> bad_arg (k_rpc_bind c)"

lemma check_clusters_iff: "check_clusters cs = Inr u \<longleftrightarrow> list_all cluster_ok cs"
  by (induction cs) (auto simp: try_then_Inr cluster_ok_def)

lemma check_paths_iff: "check_paths ps = Inr u \<longleftrightarrow> list_all (safe_abs_path \<circ> snd) ps"
  by (induction ps rule: check_paths.induct) (auto simp: try_then_Inr)

text \<open>The promise of a resolved netboot section.\<close>

definition netboot_safe :: "netboot \<Rightarrow> bool" where
  "netboot_safe nb \<longleftrightarrow> safe_token (nb_interface nb) \<and> is_ipv4 (nb_server_ip nb) \<and> is_ipv4 (nb_subnet nb) \<and>
     nb_prefix_len nb \<le> 32 \<and> is_cidr (nb_lan_cidr nb) \<and> is_cidr (export_cidr nb) \<and>
     list_all safe_abs_path [nb_rootfs nb, nb_tftp_root nb, nb_kernel nb, nb_initrd nb, nb_leases nb,
       nb_models_dir nb, nb_work_dir nb, nb_images_dir nb] \<and>
     (\<forall>p. nb_iso nb = Some p \<or> nb_ssh_pubkey nb = Some p \<or> nb_flake nb = Some p \<longrightarrow> safe_abs_path p) \<and>
     nb_oc_profile nb \<in> set oc_profiles \<and> list_all safe_token (nb_mac_ouis nb) \<and>
     safe_token (nb_hostname_prefix nb) \<and> 1 \<le> nb_ttm_gtt_gb nb \<and> nb_ttm_gtt_gb nb \<le> 16 \<and>
     nix_ok (nb_nix_cmd nb) \<and> (\<forall>v. nb_image_variant nb = Some v \<longrightarrow> v \<noteq> [] \<and> list_all variant_char v)"

lemma lower_char_token: "token_char c \<Longrightarrow> token_char (lower_char c) \<and> (lower_char c = CHR ''-'' \<longleftrightarrow> c = CHR ''-'')"
proof -
  assume t: "token_char c"
  show ?thesis
  proof (cases "65 \<le> code c \<and> code c \<le> 90")
    case True
    then have l: "code (lower_char c) = code c + 32" by (simp add: lower_char_def)
    with True have "is_alnum (lower_char c)" by (simp add: is_alnum_def)
    moreover have "lower_char c \<noteq> CHR ''-''" "c \<noteq> CHR ''-''" using l True by auto
    ultimately show ?thesis by (simp add: token_char_def)
  next
    case False
    then show ?thesis using t by (auto simp: lower_char_def)
  qed
qed

lemma lower_safe_token: "safe_token s \<Longrightarrow> safe_token (lower s)"
proof -
  assume s: "safe_token s"
  then obtain c cs where c: "s = c # cs" "c \<noteq> CHR ''-''" "token_char c" "list_all token_char cs"
    by (cases s) (auto simp: safe_token_def)
  then have "lower_char c \<noteq> CHR ''-''" "list_all token_char (lower s)"
    using lower_char_token by (auto simp: lower_def list_all_iff)
  moreover have "lower s = lower_char c # lower cs" using c by (simp add: lower_def)
  ultimately show ?thesis by (simp add: safe_token_def)
qed

lemma split_once_slash: "is_ipv4 ip \<Longrightarrow> split_once CHR ''/'' (ip @ ''/'' @ l) = Some (ip, l)"
  using split_once_append [of "CHR ''/''" ip l] ipv4_chars [of ip "CHR ''/''"] by (auto simp: is_digit_def)

lemma cidr_of: "is_ipv4 ip \<Longrightarrow> n \<le> 32 \<Longrightarrow> is_cidr (ip @ ''/'' @ show_nat n)"
  by (simp add: is_cidr_def split_once_slash [simplified] parse_show_nat)

lemma resolve_net_safe:
  assumes "resolve_net det n = Inr np"
  shows "safe_token (np_interface np) \<and> is_ipv4 (np_server_ip np) \<and> is_ipv4 (np_subnet np) \<and> np_prefix_len np \<le> 32"
  using assms by (auto simp: resolve_net_def try_then_Inr Let_def or_err_def is_ipv4_def split: option.splits)

lemma image_variant_safe: "image_variant v = Inr (Some t) \<Longrightarrow> t \<noteq> [] \<and> list_all variant_char t"
  by (auto simp: image_variant_def split: option.splits if_splits)

lemma opt_path_safe: "list_all (safe_abs_path \<circ> snd) (opt_path l p) \<longleftrightarrow> (\<forall>v. p = Some v \<longrightarrow> safe_abs_path v)"
  by (auto simp: opt_path_def split: option.splits)

lemma resolve_netboot_safe:
  assumes "resolve_netboot is_file det n = Inr nb"
  shows "netboot_safe nb"
proof -
  have p: "np_prefix_len np \<le> 32 \<Longrightarrow> unat (np_prefix_len np) \<le> 32" for np
    by (simp add: word_le_nat_alt)
  from assms obtain np variant where np: "resolve_net det n = Inr np"
    and v: "image_variant (b_image_variant n) = Inr variant" and
    nb: "nb_interface nb = np_interface np" "nb_server_ip nb = np_server_ip np" "nb_subnet nb = np_subnet np"
      "nb_prefix_len nb = np_prefix_len np" "nb_image_variant nb = variant" "nb_mac_ouis nb = map lower (b_mac_ouis n)"
    and ok: "is_cidr (nb_lan_cidr nb)"
    "list_all safe_abs_path [nb_rootfs nb, nb_tftp_root nb, nb_kernel nb, nb_initrd nb, nb_leases nb,
       nb_models_dir nb, nb_work_dir nb, nb_images_dir nb]"
    "\<forall>p. nb_iso nb = Some p \<or> nb_ssh_pubkey nb = Some p \<or> nb_flake nb = Some p \<longrightarrow> safe_abs_path p"
    "nb_oc_profile nb \<in> set oc_profiles" "list_all safe_token (b_mac_ouis n)"
    "safe_token (nb_hostname_prefix nb)" "1 \<le> nb_ttm_gtt_gb nb" "nb_ttm_gtt_gb nb \<le> 16" "nix_ok (nb_nix_cmd nb)"
    by (auto simp: resolve_netboot_def try_then_Inr Let_def check_paths_iff opt_path_safe)
  have "list_all safe_token (nb_mac_ouis nb)"
    using ok(5) by (auto simp: nb list_all_iff intro: lower_safe_token)
  moreover have "is_cidr (export_cidr nb)"
    using resolve_net_safe [OF np] p [of np] cidr_of [of "np_subnet np" "unat (np_prefix_len np)"]
    by (simp add: export_cidr_def nb)
  ultimately show ?thesis
    using resolve_net_safe [OF np] image_variant_safe v ok unfolding netboot_safe_def nb by blast
qed

text \<open>
 C25: Loading a fleet file succeeds exactly when every node has a known transport, no host or user that
  ssh would read as an option, a valid unit name and a power command that is not blank, every cluster has
  usable rpc arguments, the default unit is valid where no node is declared, and the netboot section, if
  any, resolves.
\<close>

theorem from_raw_accepts_iff:
  "is_ok (from_raw dm0 is_file det raw) \<longleftrightarrow>
    (let du = or_else (d_llama_unit (r_defaults raw)) ''llama-server.service'' in
     list_all (node_cfg_ok du) (r_nodes raw) \<and> (r_nodes raw = [] \<longrightarrow> valid_unit_name du) \<and>
     list_all cluster_ok (r_clusters raw) \<and>
     (case r_netboot raw of None \<Rightarrow> True | Some n \<Rightarrow> is_ok (resolve_netboot is_file det n)))"
proof -
  define dm du dl where "dm = or_else (d_models_dir (r_defaults raw)) dm0"
    and "du = or_else (d_llama_unit (r_defaults raw)) ''llama-server.service''"
    and "dl = or_else (d_llama_url (r_defaults raw)) ''http://127.0.0.1:8080''"
  note defs = dm_def du_def dl_def
  have nil: "ns = [] \<longleftrightarrow> r_nodes raw = []" if "resolve_nodes dm du dl (r_nodes raw) = Inr ns" for ns
    using resolve_nodes_safe [OF that] by auto
  have "is_ok (from_raw dm0 is_file det raw) \<longleftrightarrow>
      (\<exists>ns. resolve_nodes dm du dl (r_nodes raw) = Inr ns \<and> (ns = [] \<longrightarrow> valid_unit_name du)) \<and>
      list_all cluster_ok (r_clusters raw) \<and>
      (case r_netboot raw of None \<Rightarrow> True | Some n \<Rightarrow> is_ok (resolve_netboot is_file det n))"
    unfolding from_raw_def Let_def defs [symmetric]
    by (cases "r_netboot raw") (auto simp: is_ok_try try_then_Inr check_clusters_iff is_ok_ex [of "resolve_netboot _ _ _"])
  also have "(\<exists>ns. resolve_nodes dm du dl (r_nodes raw) = Inr ns \<and> (ns = [] \<longrightarrow> valid_unit_name du)) \<longleftrightarrow>
      list_all (node_cfg_ok du) (r_nodes raw) \<and> (r_nodes raw = [] \<longrightarrow> valid_unit_name du)"
    using nil resolve_nodes_iff [of dm du dl "r_nodes raw"] by (auto simp: is_ok_ex)
  finally show ?thesis by (simp add: Let_def du_def)
qed

text \<open>
 C24: What a loaded configuration contains is safe to use: there is at least one node, the nodes are the
  declared ones in their order (or the single local node), no host or user of a node can be read as an
  option, the unit of a node is one path component ending in \<open>.service\<close> under any unit directory, and a
  resolved netboot section has only safe tokens, valid addresses and CIDRs, absolute paths without
  parent references or line breaks, and values within their ranges.
\<close>

theorem from_raw_safe:
  assumes "from_raw dm0 is_file det raw = Inr c"
  shows "cfg_nodes c \<noteq> [] \<and> list_all node_safe (cfg_nodes c) \<and>
    map n_name (cfg_nodes c) = (if r_nodes raw = [] then [''localhost''] else map c_name (r_nodes raw)) \<and>
    list_all cluster_ok (cfg_clusters c) \<and> (\<forall>nb. cfg_netboot c = Some nb \<longrightarrow> netboot_safe nb)"
proof -
  define dm du dl where "dm = or_else (d_models_dir (r_defaults raw)) dm0"
    and "du = or_else (d_llama_unit (r_defaults raw)) ''llama-server.service''"
    and "dl = or_else (d_llama_url (r_defaults raw)) ''http://127.0.0.1:8080''"
  from assms obtain ns where ns: "resolve_nodes dm du dl (r_nodes raw) = Inr ns"
    and du: "ns = [] \<longrightarrow> valid_unit_name du" and cl: "list_all cluster_ok (r_clusters raw)"
    and c: "cfg_nodes c = (if ns = [] then [localhost dm du dl] else ns)" "cfg_clusters c = r_clusters raw"
    and nb: "\<forall>nb. cfg_netboot c = Some nb \<longrightarrow> (\<exists>n. resolve_netboot is_file det n = Inr nb)"
    unfolding from_raw_def Let_def dm_def du_def dl_def
    by (cases "r_netboot raw") (auto simp: try_then_Inr check_clusters_iff, blast+)
  have "node_safe (localhost dm du dl)" if "valid_unit_name du"
    using that file_name_plain_dir [OF valid_unit_plain [OF that]]
    by (simp add: node_safe_def localhost_def dash_def valid_unit_name_def)
  with resolve_nodes_safe [OF ns] du c cl nb resolve_netboot_safe show ?thesis
    by (auto simp: localhost_def)
qed

definition demo_node_cfg :: "string \<Rightarrow> string \<Rightarrow> node_cfg" where
  "demo_node_cfg nm tr = \<lparr>c_name = nm, c_host = Some ''10.0.0.2'', c_transport = Some tr, c_ssh_user = None,
     c_ssh_key = None, c_models_dir = None, c_llama_unit = None, c_llama_url = None, c_power_cmd = None\<rparr>"

definition demo_netboot_cfg :: netboot_cfg where
  "demo_netboot_cfg = \<lparr>b_interface = None, b_server_ip = Some ''192.168.1.37'', b_subnet = None, b_prefix_len = None,
     b_http_port = None, b_rootfs = None, b_tftp_root = None, b_kernel = None, b_initrd = None, b_oc_profile = None,
     b_leases = None, b_mac_ouis = [''58:11:22''], b_hostname_prefix = None, b_lan_cidr = None, b_models_dir = None,
     b_dnsmasq = None, b_console_port = None, b_iso = None, b_work_dir = None, b_ssh_pubkey = None,
     b_ttm_gtt_gb = None, b_flake = None, b_nix_cmd = None, b_image_variant = None, b_images_dir = None\<rparr>"

definition demo_raw :: raw_config where
  "demo_raw = empty_raw\<lparr>r_nodes := [demo_node_cfg ''b1'' ''SSH''], r_netboot := Some demo_netboot_cfg\<rparr>"

lemma from_raw_safe_witness:
  "\<exists>c. from_raw ''/m'' (\<lambda>_. False) (Some (''enp6s0'', ''10.0.0.1'')) demo_raw = Inr c \<and>
     map n_name (cfg_nodes c) = [''b1''] \<and> list_all node_safe (cfg_nodes c)"
proof -
  have "is_ok (from_raw ''/m'' (\<lambda>_. False) (Some (''enp6s0'', ''10.0.0.1'')) demo_raw)"
    by code_simp
  then obtain c where c: "from_raw ''/m'' (\<lambda>_. False) (Some (''enp6s0'', ''10.0.0.1'')) demo_raw = Inr c"
    by (auto simp: is_ok_ex)
  from from_raw_safe [OF c] c show ?thesis by (simp add: demo_raw_def demo_node_cfg_def)
qed

lemma from_raw_accepts_iff_witness:
  "\<not> is_ok (from_raw ''/m'' (\<lambda>_. False) None (empty_raw\<lparr>r_nodes := [demo_node_cfg ''b1'' ''shh'']\<rparr>)) \<and>
   is_ok (from_raw ''/m'' (\<lambda>_. False) None (empty_raw\<lparr>r_nodes := [demo_node_cfg ''b1'' ''ssh'']\<rparr>))"
  unfolding from_raw_accepts_iff
  by (simp add: node_cfg_ok_def demo_node_cfg_def empty_raw_def Let_def) (code_simp)

end
