(* ===== verification/Transport.thy ===== *)
theory Transport
  imports Complex_Main Config
begin

text \<open>
  The ssh transport (src/src/transport.rs): quoting arguments for the remote login shell, the argument
  vector of every ssh call, the bounded capture of a child's output, and the remote operations. The
  programs outside the repository are described by their documented behaviour: \<open>sh_words\<close> splits a
  command line as a POSIX shell does (and gives None where it would expand or interpret), \<open>ssh_parse\<close>
  reads options, the end-of-options guard, the target and the command as ssh does. JSON parsing
  (serde_json) is a parameter.
\<close>

section \<open>Quoting\<close>

definition squote :: char where
  "squote = CHR 0x27"

definition shell_safe_char :: "char \<Rightarrow> bool" where
  "shell_safe_char c \<longleftrightarrow> is_alnum c \<or> c \<in> set ''_@%+=:,./-''"

definition shell_safe :: "string \<Rightarrow> bool" where
  "shell_safe s \<longleftrightarrow> s \<noteq> [] \<and> list_all shell_safe_char s"

definition sh_quote :: "string \<Rightarrow> string" where
  "sh_quote s =
     (if shell_safe s then s
      else [squote] @ replace [squote] [squote, CHR 0x5C, squote, squote] s @ [squote])"

section \<open>The shell that reads it\<close>

fun sh_go :: "string \<Rightarrow> string option \<Rightarrow> bool \<Rightarrow> string list option" where
  "sh_go [] w True = None"
| "sh_go [] w False = Some (case w of None \<Rightarrow> [] | Some v \<Rightarrow> [v])"
| "sh_go (c # cs) w True =
     (if c = squote then sh_go cs w False else sh_go cs (Some ((case w of None \<Rightarrow> [] | Some v \<Rightarrow> v) @ [c])) True)"
| "sh_go (c # cs) w False =
     (if c = CHR '' '' \<or> c = CHR 0x09
      then (case w of
              None \<Rightarrow> sh_go cs None False
            | Some v \<Rightarrow> map_option (Cons v) (sh_go cs None False))
      else if c = squote then sh_go cs (Some (case w of None \<Rightarrow> [] | Some v \<Rightarrow> v)) True
      else if c = CHR 0x5C
      then (case cs of
              [] \<Rightarrow> None
            | d # ds \<Rightarrow>
                if d = CHR 0x0A then None
                else sh_go ds (Some ((case w of None \<Rightarrow> [] | Some v \<Rightarrow> v) @ [d])) False)
      else if shell_safe_char c then sh_go cs (Some ((case w of None \<Rightarrow> [] | Some v \<Rightarrow> v) @ [c])) False
      else None)"

definition sh_words :: "string \<Rightarrow> string list option" where
  "sh_words s = sh_go s None False"

section \<open>The ssh command\<close>

definition hostkey_policy_from :: "string option \<Rightarrow> string" where
  "hostkey_policy_from v =
     (case map_option trim v of
        None \<Rightarrow> ''accept-new''
      | Some t \<Rightarrow> if t \<in> {''yes'', ''1'', ''true''} then ''yes'' else ''accept-new'')"

definition target_of :: "node \<Rightarrow> string \<Rightarrow> string" where
  "target_of n host = (case n_ssh_user n of None \<Rightarrow> host | Some u \<Rightarrow> u @ ''@'' @ host)"

definition ssh_options :: "string option \<Rightarrow> node \<Rightarrow> string list" where
  "ssh_options strict n =
     [''-o'', ''BatchMode=yes'', ''-o'', ''ConnectTimeout=8'',
      ''-o'', ''StrictHostKeyChecking='' @ hostkey_policy_from strict,
      ''-o'', ''ServerAliveInterval=5'', ''-o'', ''ServerAliveCountMax=3''] @
     (case n_ssh_key n of None \<Rightarrow> [] | Some k \<Rightarrow> [''-i'', k])"

definition ssh_argv :: "string option \<Rightarrow> node \<Rightarrow> string list \<Rightarrow> string list" where
  "ssh_argv strict n args =
     ssh_options strict n @
     [''--'', target_of n (or_else (n_host n) ''localhost''), ''llmtune'', ''--json'', ''node''] @ map sh_quote args"

text \<open>How ssh reads its arguments: options with a value, the guard, the target, the remote command.\<close>

fun ssh_parse :: "string list \<Rightarrow> ((string \<times> string) list \<times> string \<times> string) option" where
  "ssh_parse (a # v # vs) =
     (if a = ''--'' then Some ([], v, join '' '' vs)
      else if a \<in> {''-o'', ''-i''} then map_option (\<lambda>(os, r). ((a, v) # os, r)) (ssh_parse vs)
      else None)"
| "ssh_parse _ = None"

section \<open>Bounded output\<close>

type_synonym bytestring = "u8 list"

text \<open>The reader thread: one chunk per successful read, until the end of the stream or an error.\<close>

fun drain_from :: "nat \<Rightarrow> bytestring list \<Rightarrow> bytestring \<times> bool \<Rightarrow> bytestring \<times> bool" where
  "drain_from m [] (buf, tr) = (buf, tr)"
| "drain_from m (c # cs) (buf, tr) =
     (if c = [] then (buf, tr)
      else let k = min (length c) (m - length buf)
           in drain_from m cs (buf @ take k c, tr \<or> k < length c))"

definition drain :: "nat \<Rightarrow> bytestring list \<Rightarrow> bytestring \<times> bool" where
  "drain m cs = drain_from m cs ([], False)"

text \<open>Waiting for the child: polled every 25 ms (\<open>t\<close> is the time elapsed), killed at the deadline.\<close>

function await :: "nat \<Rightarrow> (nat \<Rightarrow> 'st option) \<Rightarrow> nat \<Rightarrow> 'st option" where
  "await dl poll t =
     (case poll t of
        Some st \<Rightarrow> Some st
      | None \<Rightarrow> if t \<ge> dl then None else await dl poll (t + 25))"
  by pat_completeness auto
termination
  by (relation "measure (\<lambda>(dl, _, t). dl - t)") auto

declare await.simps [simp del]

record child =
  ch_exit :: "nat \<Rightarrow> bool option"
  ch_stdout :: "bytestring list"
  ch_stderr :: "bytestring list"

record capped_output =
  co_success :: bool
  co_stdout :: bytestring
  co_stderr :: bytestring
  co_truncated :: bool

datatype ssh_error = Spawn_failed | Deadline | Remote_failed bytestring | Reply_truncated | Bad_json

definition output_capped :: "nat \<Rightarrow> nat \<Rightarrow> child option \<Rightarrow> ssh_error + capped_output" where
  "output_capped m dl ch =
     (case ch of
        None \<Rightarrow> Inl Spawn_failed
      | Some c \<Rightarrow>
          (case await dl (ch_exit c) 0 of
             None \<Rightarrow> Inl Deadline
           | Some ok \<Rightarrow>
               (let (out, t1) = drain m (ch_stdout c); (err, t2) = drain m (ch_stderr c)
                in Inr \<lparr>co_success = ok, co_stdout = out, co_stderr = err, co_truncated = t1 \<or> t2\<rparr>)))"

definition ssh_output_max :: nat where
  "ssh_output_max = 8 * 1024 * 1024"

definition ssh_deadline :: nat where
  "ssh_deadline = 600 * 1000"

text \<open>\<open>exec\<close> runs ssh with an argument vector.\<close>

definition ssh_run :: "(string list \<Rightarrow> child option) \<Rightarrow> string option \<Rightarrow> node \<Rightarrow> string list \<Rightarrow> ssh_error + bytestring" where
  "ssh_run exec strict n args =
     try_then (output_capped ssh_output_max ssh_deadline (exec (ssh_argv strict n args))) (\<lambda>out.
       if \<not> co_success out then Inl (Remote_failed (co_stderr out))
       else if co_truncated out then Inl Reply_truncated
       else Inr (co_stdout out))"

definition ssh_json :: "(bytestring \<Rightarrow> 'a option) \<Rightarrow> (string list \<Rightarrow> child option) \<Rightarrow> string option \<Rightarrow> node
    \<Rightarrow> string list \<Rightarrow> ssh_error + 'a" where
  "ssh_json parse exec strict n args =
     try_then (ssh_run exec strict n args) (\<lambda>raw. or_err (parse raw) Bad_json)"

section \<open>The remote operations\<close>

datatype node_op =
    Op_status
  | Op_list
  | Op_load string
  | Op_unload
  | Op_server string
  | Op_bench nat nat nat
  | Op_history nat
  | Op_gpu
  | Op_doctor
  | Op_endpoint
  | Op_set_flags string "string option"
  | Op_build_version string

fun remote_args :: "node_op \<Rightarrow> string list" where
  "remote_args Op_status = [''status'']"
| "remote_args Op_list = [''list'']"
| "remote_args (Op_load q) = [''load'', q]"
| "remote_args Op_unload = [''unload'']"
| "remote_args (Op_server a) = [''server'', a]"
| "remote_args (Op_bench p g r) =
     [''bench'', ''--prompt-tokens'', show_nat p, ''--gen-tokens'', show_nat g, ''--repeats'', show_nat r]"
| "remote_args (Op_history l) = [''history'', ''--limit'', show_nat l]"
| "remote_args Op_gpu = [''gpu'']"
| "remote_args Op_doctor = [''doctor'']"
| "remote_args Op_endpoint = [''endpoint'']"
| "remote_args (Op_set_flags md fl) =
     (case fl of Some f \<Rightarrow> [''profile'', ''set-model'', md, ''--flags'', f]
      | None \<Rightarrow> [''profile'', ''set-model'', md, ''--reset''])"
| "remote_args (Op_build_version b) = [''build-version'', b]"

record node_status =
  st_name :: string
  st_reachable :: bool
  st_healthy :: bool
  st_benchmarking :: bool
  st_served :: "string option"
  st_models :: nat
  st_last_model :: "string option"
  st_last_gen_tok_s :: "real option"

definition unreachable :: "string \<Rightarrow> node_status" where
  "unreachable nm = \<lparr>st_name = nm, st_reachable = False, st_healthy = False, st_benchmarking = False,
     st_served = None, st_models = 0, st_last_model = None, st_last_gen_tok_s = None\<rparr>"

definition ssh_status :: "(bytestring \<Rightarrow> node_status option) \<Rightarrow> (string list \<Rightarrow> child option) \<Rightarrow> string option
    \<Rightarrow> node \<Rightarrow> node_status" where
  "ssh_status parse exec strict n =
     (case ssh_json parse exec strict n (remote_args Op_status) of
        Inl _ \<Rightarrow> unreachable (n_name n)
      | Inr s \<Rightarrow> s)"

text \<open>Which transport a node gets; None is the refusal of the agent transport.\<close>

definition for_node :: "node \<Rightarrow> bool option" where
  "for_node n = (case n_transport n of Local \<Rightarrow> Some True | Ssh \<Rightarrow> Some False | Agent \<Rightarrow> None)"

section \<open>The shell gets back what was quoted\<close>

definition esc :: "char \<Rightarrow> string" where
  "esc c = (if c = squote then [squote, CHR 0x5C, squote, squote] else [c])"

lemma replace_squote: "replace [squote] [squote, CHR 0x5C, squote, squote] s = concat (map esc s)"
proof (induction s)
  case (Cons c s)
  show ?case
  proof (cases "c = squote")
    case True
    then show ?thesis
      using Cons replace_hit [of "[squote]" "[squote, CHR 0x5C, squote, squote]" s] by (simp add: esc_def)
  next
    case False
    then show ?thesis
      using Cons replace_miss [of "[squote]" c s "[squote, CHR 0x5C, squote, squote]"] by (simp add: esc_def)
  qed
qed simp

lemma squote_chars [simp]: "squote \<noteq> CHR '' ''" "squote \<noteq> CHR 0x09" "squote \<noteq> CHR 0x5C" "squote \<noteq> CHR 0x0A"
  "CHR 0x5C \<noteq> squote" "CHR '' '' \<noteq> squote"
  by (simp_all add: squote_def)

lemma sh_go_quoted: "sh_go (concat (map esc s) @ squote # r) (Some w) True = sh_go r (Some (w @ s)) False"
  by (induction s arbitrary: w) (auto simp: esc_def)

lemma shell_safe_plain: "shell_safe_char c \<Longrightarrow> c \<noteq> CHR '' '' \<and> c \<noteq> CHR 0x09 \<and> c \<noteq> squote \<and> c \<noteq> CHR 0x5C"
  by (auto simp: shell_safe_char_def squote_def is_alnum_def is_digit_def)

lemma sh_go_safe: "list_all shell_safe_char s \<Longrightarrow> sh_go (s @ r) (Some w) False = sh_go r (Some (w @ s)) False"
  by (induction s arbitrary: w) (auto simp: shell_safe_plain dest: shell_safe_plain)

lemma sh_go_quote: "sh_go (sh_quote s @ r) None False = sh_go r (Some s) False"
proof (cases "shell_safe s")
  case True
  then obtain c cs where s: "s = c # cs" "shell_safe_char c" "list_all shell_safe_char cs"
    by (cases s) (auto simp: shell_safe_def)
  with sh_go_safe [OF s(3), of r "[c]"] True shell_safe_plain [OF s(2)] show ?thesis
    by (simp add: sh_quote_def)
next
  case False
  then show ?thesis
    using sh_go_quoted [of s r "[]"] by (simp add: sh_quote_def replace_squote)
qed

lemma sh_words_quoted: "sh_words (join '' '' (map sh_quote ws)) = Some ws"
proof -
  have "sh_go (join '' '' (map sh_quote ws)) None False = Some ws"
  proof (induction ws rule: induct_list012)
    case (2 w)
    then show ?case using sh_go_quote [of w "[]"] by simp
  next
    case (3 w v vs)
    then show ?case using sh_go_quote [of w "'' '' @ join '' '' (map sh_quote (v # vs))"] by simp
  qed simp
  then show ?thesis by (simp add: sh_words_def)
qed

lemma sh_quote_words: "sh_quote ''llmtune'' = ''llmtune''" "sh_quote ''--json'' = ''--json''" "sh_quote ''node'' = ''node''"
  by code_simp+

lemma ssh_parse_options: "ssh_parse (ssh_options strict n @ ''--'' # h # vs) =
    Some ([(''-o'', ''BatchMode=yes''), (''-o'', ''ConnectTimeout=8''),
      (''-o'', ''StrictHostKeyChecking='' @ hostkey_policy_from strict), (''-o'', ''ServerAliveInterval=5''),
      (''-o'', ''ServerAliveCountMax=3'')] @ (case n_ssh_key n of None \<Rightarrow> [] | Some k \<Rightarrow> [(''-i'', k)]), h, join '' '' vs)"
  by (simp add: ssh_options_def split: option.splits)

text \<open>
 C26: Every remote call reaches the intended machine and the intended command line: whatever the host,
  the user, the key path and the arguments contain, ssh reads exactly the fixed options and the key as
  options and the configured target as the target, and the remote login shell splits the command into
  \<open>llmtune --json node\<close> followed by exactly the given arguments, nothing expanded or interpreted. Host key
  checking is never switched off.
\<close>

theorem ssh_argv_exact:
  "\<exists>opts cmd. ssh_parse (ssh_argv strict n args) = Some (opts, target_of n (or_else (n_host n) ''localhost''), cmd) \<and>
     sh_words cmd = Some ([''llmtune'', ''--json'', ''node''] @ args) \<and>
     set opts \<subseteq> {(''-o'', ''BatchMode=yes''), (''-o'', ''ConnectTimeout=8''), (''-o'', ''ServerAliveInterval=5''),
       (''-o'', ''ServerAliveCountMax=3''), (''-o'', ''StrictHostKeyChecking=yes''),
       (''-o'', ''StrictHostKeyChecking=accept-new'')} \<union> {(''-i'', k) | k. n_ssh_key n = Some k}"
proof (intro exI conjI)
  let ?cmd = "join '' '' (map sh_quote ([''llmtune'', ''--json'', ''node''] @ args))"
  let ?opts = "[(''-o'', ''BatchMode=yes''), (''-o'', ''ConnectTimeout=8''),
      (''-o'', ''StrictHostKeyChecking='' @ hostkey_policy_from strict), (''-o'', ''ServerAliveInterval=5''),
      (''-o'', ''ServerAliveCountMax=3'')] @ (case n_ssh_key n of None \<Rightarrow> [] | Some k \<Rightarrow> [(''-i'', k)])"
  have "map sh_quote ([''llmtune'', ''--json'', ''node''] @ args) = ''llmtune'' # ''--json'' # ''node'' # map sh_quote args"
    using sh_quote_words by simp
  then show "ssh_parse (ssh_argv strict n args) = Some (?opts, target_of n (or_else (n_host n) ''localhost''), ?cmd)"
    unfolding ssh_argv_def append_Cons append_Nil ssh_parse_options by simp
  show "sh_words ?cmd = Some ([''llmtune'', ''--json'', ''node''] @ args)" by (rule sh_words_quoted)
  have h: "hostkey_policy_from strict = ''yes'' \<or> hostkey_policy_from strict = ''accept-new''"
    by (auto simp: hostkey_policy_from_def split: option.splits)
  show "set ?opts \<subseteq> {(''-o'', ''BatchMode=yes''), (''-o'', ''ConnectTimeout=8''), (''-o'', ''ServerAliveInterval=5''),
       (''-o'', ''ServerAliveCountMax=3''), (''-o'', ''StrictHostKeyChecking=yes''),
       (''-o'', ''StrictHostKeyChecking=accept-new'')} \<union> {(''-i'', k) | k. n_ssh_key n = Some k}"
    using h by (cases "n_ssh_key n") (elim disjE; simp)+
qed

text \<open>The buffer holds the first bytes of the stream, however it is cut into reads.\<close>

lemma drain_from_exact:
  "[] \<notin> set cs \<Longrightarrow> length buf \<le> m \<Longrightarrow>
   drain_from m cs (buf, tr) = (buf @ take (m - length buf) (concat cs), tr \<or> m < length buf + length (concat cs))"
  by (induction cs arbitrary: buf tr) (auto simp: min_def Let_def)

lemma drain_exact: "[] \<notin> set cs \<Longrightarrow> drain m cs = (take m (concat cs), m < length (concat cs))"
  by (simp add: drain_def drain_from_exact)

lemma await_Some:
  "await dl poll t = Some st \<Longrightarrow> \<exists>u. poll u = Some st \<and> (u = t \<or> u < dl + 25)"
proof (induction dl poll t rule: await.induct)
  case (1 dl poll t)
  show ?case
  proof (cases "poll t")
    case None
    with "1.prems" have n: "\<not> dl \<le> t" "await dl poll (t + 25) = Some st"
      by (auto simp: await.simps [of dl poll t] split: if_splits)
    with "1.IH" [OF None n(1)] obtain u where "poll u = Some st" "u = t + 25 \<or> u < dl + 25"
      by blast
    then show ?thesis using n(1) None by (intro exI [of _ u]) auto
  next
    case (Some st')
    with "1.prems" show ?thesis by (intro exI [of _ t]) (simp add: await.simps [of dl poll t])
  qed
qed


definition demo_node :: node where
  "demo_node = localhost ''/m'' ''llama-server.service'' ''http://127.0.0.1:8080''"


text \<open>Different operations are different remote command lines.\<close>

lemma show_nat_inj: "show_nat a = show_nat b \<longleftrightarrow> a = b"
  by (metis nat_of_show)

lemma remote_args_inj: "remote_args a = remote_args b \<Longrightarrow> a = b"
  by (cases a; cases b) (auto simp: show_nat_inj split: option.splits)

end
