(* ===== verification/Cluster.thy ===== *)
theory Cluster
  imports Systemd Transport
begin

text \<open>
  Cluster mode (src/src/cluster.rs): the rpc endpoints and flags of the head, bringing a cluster up and
  down over an abstract worker control, the build-parity check, and the command lines of the real worker
  control. The locale \<open>worker_env\<close> is the contract of a worker control next to a head actuator and
  probe; it is interpreted on the rack, a world of running rpc servers beside the systemd world of the
  head.
\<close>

section \<open>Endpoints and flags\<close>

definition worker_endpoint :: "node \<Rightarrow> nat \<Rightarrow> string" where
  "worker_endpoint n port = or_else (n_host n) (n_name n) @ '':'' @ show_nat port"

definition inject_rpc :: "string \<Rightarrow> string list \<Rightarrow> string" where
  "inject_rpc fl eps = (if eps = [] then fl else fl @ '' --rpc '' @ join '','' eps)"

section \<open>Bringing a cluster up\<close>

record 'w worker_ctl =
  w_start :: "node \<Rightarrow> nat \<Rightarrow> string \<Rightarrow> string \<Rightarrow> (string, 'w) step"
  w_stop :: "node \<Rightarrow> nat \<Rightarrow> (string, 'w) step"
  w_accepting :: "node \<Rightarrow> nat \<Rightarrow> 'w \<Rightarrow> bool \<times> 'w"

type_synonym warnings = "(string \<times> string) list"

datatype cluster_detail =
    Worker_failed string string
  | Worker_silent string string
  | Cluster_up nat
  | Head_failed nat

record cluster_outcome =
  cl_name :: string
  cl_ok :: bool
  cl_reverted :: bool
  cl_model :: string
  cl_workers_up :: "string list"
  cl_detail :: cluster_detail

text \<open>Stop every worker; the workers whose stop failed, with the error.\<close>

fun teardown :: "'w worker_ctl \<Rightarrow> node list \<Rightarrow> nat \<Rightarrow> 'w \<Rightarrow> warnings \<times> 'w" where
  "teardown W [] port w = ([], w)"
| "teardown W (n # ns) port w =
     (case w_stop W n port w of
        (Inl e, w) \<Rightarrow> (let (fs, w) = teardown W ns port w in ((n_name n, e) # fs, w))
      | (Inr _, w) \<Rightarrow> teardown W ns port w)"

fun poll_accept :: "'w worker_ctl \<Rightarrow> 'w health \<Rightarrow> node \<Rightarrow> nat \<Rightarrow> nat \<Rightarrow> 'w \<Rightarrow> bool \<times> 'w" where
  "poll_accept W H n port 0 w = (False, w)"
| "poll_accept W H n port (Suc k) w =
     (case w_accepting W n port w of
        (True, w) \<Rightarrow> (True, w)
      | (False, w) \<Rightarrow> poll_accept W H n port k (if k = 0 then w else h_pause H w))"

text \<open>Start the workers in order; on an error, the worker, the error, and the workers before it.\<close>

fun start_all :: "'w worker_ctl \<Rightarrow> nat \<Rightarrow> string \<Rightarrow> string \<Rightarrow> node list \<Rightarrow> node list \<Rightarrow> 'w
    \<Rightarrow> ((node \<times> string \<times> node list) + unit) \<times> 'w" where
  "start_all W port exe bind done [] w = (Inr (), w)"
| "start_all W port exe bind done (n # ns) w =
     (case w_start W n port exe bind w of
        (Inl e, w) \<Rightarrow> (Inl (n, e, done), w)
      | (Inr _, w) \<Rightarrow> start_all W port exe bind (done @ [n]) ns w)"

text \<open>The first worker that never accepts on its port.\<close>

fun accept_all :: "'w worker_ctl \<Rightarrow> 'w health \<Rightarrow> nat \<Rightarrow> nat \<Rightarrow> node list \<Rightarrow> 'w \<Rightarrow> node option \<times> 'w" where
  "accept_all W H port k [] w = (None, w)"
| "accept_all W H port k (n # ns) w =
     (case poll_accept W H n port k w of
        (True, w) \<Rightarrow> accept_all W H port k ns w
      | (False, w) \<Rightarrow> (Some n, w))"

definition cluster_failure :: "string \<Rightarrow> string \<Rightarrow> cluster_detail \<Rightarrow> cluster_outcome" where
  "cluster_failure nm md d = \<lparr>cl_name = nm, cl_ok = False, cl_reverted = True, cl_model = md,
     cl_workers_up = [], cl_detail = d\<rparr>"

definition cluster_dropin :: "(string \<Rightarrow> string \<Rightarrow> string option) \<Rightarrow> (string \<Rightarrow> string option) \<Rightarrow> model \<Rightarrow> profile
    \<Rightarrow> node list \<Rightarrow> nat \<Rightarrow> swap_opts \<Rightarrow> string" where
  "cluster_dropin find_bin find_dir md p ws port opts =
     swap_dropin find_bin find_dir md p
       (inject_rpc (adjust_flags p md) (map (\<lambda>n. worker_endpoint n port) ws)) opts"

text \<open>Launching the head once the workers accept.\<close>

definition launch_head :: "'w worker_ctl \<Rightarrow> 'w actuator \<Rightarrow> 'w health \<Rightarrow> string \<Rightarrow> string \<Rightarrow> string \<Rightarrow> node list
    \<Rightarrow> nat \<Rightarrow> swap_opts \<Rightarrow> string \<Rightarrow> 'w \<Rightarrow> ((string + cluster_outcome) \<times> warnings) \<times> 'w" where
  "launch_head W A H nm u md ws port opts d w =
     (case and_then (a_stage A u d) (a_restart A u) w of
        (Inl e, w) \<Rightarrow> (let (warn, w) = teardown W ws port w in ((Inl e, warn), w))
      | (Inr _, w) \<Rightarrow>
          (case poll_health H (o_attempts opts) w of
             (True, w) \<Rightarrow>
               (case a_commit A (if o_prewarm opts then h_warm H w else w) of
                  (Inl e, w) \<Rightarrow> ((Inl e, []), w)
                | (Inr _, w) \<Rightarrow>
                    ((Inr \<lparr>cl_name = nm, cl_ok = True, cl_reverted = False, cl_model = md,
                        cl_workers_up = map n_name ws, cl_detail = Cluster_up (length ws)\<rparr>, []), w))
           | (False, w) \<Rightarrow>
               (let (r, w) = and_then (a_rollback A u) (a_restart A u) w;
                    (warn, w) = teardown W ws port w
                in ((case r of Inl e \<Rightarrow> Inl e | Inr _ \<Rightarrow> Inr (cluster_failure nm md (Head_failed (length ws))), warn), w))))"

definition up :: "(string \<Rightarrow> string \<Rightarrow> string option) \<Rightarrow> (string \<Rightarrow> string option) \<Rightarrow> 'w worker_ctl \<Rightarrow> 'w actuator
    \<Rightarrow> 'w health \<Rightarrow> string \<Rightarrow> string \<Rightarrow> model \<Rightarrow> profile \<Rightarrow> node list \<Rightarrow> nat \<Rightarrow> string \<Rightarrow> string \<Rightarrow> swap_opts \<Rightarrow> 'w
    \<Rightarrow> ((string + cluster_outcome) \<times> warnings) \<times> 'w" where
  "up find_bin find_dir W A H nm u md p ws port exe bind opts w =
     (case start_all W port exe bind [] ws w of
        (Inl (n, e, started), w) \<Rightarrow>
          (let (warn, w) = teardown W started port w
           in ((Inr (cluster_failure nm (m_name md) (Worker_failed (n_name n) e)), warn), w))
      | (Inr _, w) \<Rightarrow>
          (case accept_all W H port (o_attempts opts) ws w of
             (Some n, w) \<Rightarrow>
               (let (warn, w) = teardown W ws port w
                in ((Inr (cluster_failure nm (m_name md) (Worker_silent (n_name n) (worker_endpoint n port))), warn), w))
           | (None, w) \<Rightarrow>
               launch_head W A H nm u (m_name md) ws port opts (cluster_dropin find_bin find_dir md p ws port opts) w))"

definition down :: "(string, 'w) step \<Rightarrow> 'w worker_ctl \<Rightarrow> node list \<Rightarrow> nat \<Rightarrow> 'w \<Rightarrow> (string + warnings) \<times> 'w" where
  "down clear W ws port w =
     (let (failed, w) = teardown W ws port w in
      case clear w of
        (Inl e, w) \<Rightarrow> (Inl e, w)
      | (Inr _, w) \<Rightarrow> (Inr failed, w))"

section \<open>Build parity\<close>

datatype parity =
    Match
  | Mismatch string string "(string \<times> string) list"
  | Unverified_head string
  | Unverified string "string list"
  | Unverified_literal

definition skewed :: "string \<Rightarrow> (string \<times> string option) list \<Rightarrow> (string \<times> string) list" where
  "skewed v ws = concat (map (\<lambda>(n, x). case x of None \<Rightarrow> [] | Some y \<Rightarrow> if y \<noteq> v then [(n, y)] else []) ws)"

definition unknown :: "(string \<times> string option) list \<Rightarrow> string list" where
  "unknown ws = map fst (filter (\<lambda>p. snd p = None) ws)"

definition check_parity :: "string \<Rightarrow> string option \<Rightarrow> (string \<times> string option) list \<Rightarrow> parity" where
  "check_parity build hd_ver ws =
     (case hd_ver of
        None \<Rightarrow> Unverified_head build
      | Some v \<Rightarrow>
          if skewed v ws \<noteq> [] then Mismatch build v (skewed v ws)
          else if unknown ws \<noteq> [] then Unverified build (unknown ws)
          else Match)"

text \<open>\<open>remote\<close> asks a worker for the version of a build; its errors count as not determinable.\<close>

definition build_parity :: "(string \<Rightarrow> string option) \<Rightarrow> (node \<Rightarrow> string \<Rightarrow> ssh_error + string option) \<Rightarrow> string option
    \<Rightarrow> node list \<Rightarrow> parity" where
  "build_parity current remote build ws =
     (case build of
        None \<Rightarrow> Unverified_literal
      | Some b \<Rightarrow>
          if b = [] then Unverified_literal
          else check_parity b (current b)
            (map (\<lambda>n. (n_name n, if for_node n = None then None
               else case remote n b of Inl _ \<Rightarrow> None | Inr v \<Rightarrow> v)) ws))"

section \<open>The real worker control\<close>

definition ssh_target :: "node \<Rightarrow> string" where
  "ssh_target n = target_of n (or_else (n_host n) (n_name n))"

text \<open>The program and arguments that run a privileged command on a node.\<close>

definition run_on_argv :: "string option \<Rightarrow> node \<Rightarrow> string list \<Rightarrow> string \<times> string list" where
  "run_on_argv strict n argv =
     (if n_transport n = Local then (''sudo'', argv)
      else (''ssh'', ssh_options strict n @ [''--'', ssh_target n, ''sudo''] @ map sh_quote argv))"

definition rpc_unit :: "nat \<Rightarrow> string" where
  "rpc_unit port = ''llmtune-rpc-'' @ show_nat port"

definition start_argv :: "string \<Rightarrow> string \<Rightarrow> string \<Rightarrow> nat \<Rightarrow> string list" where
  "start_argv u exe bind port =
     [''systemd-run'', ''--unit'', u, ''--collect''] @
     (case parent exe of
        None \<Rightarrow> []
      | Some d \<Rightarrow> if d = [] then [] else [''--setenv=LD_LIBRARY_PATH='' @ d]) @
     [exe, ''-H'', bind, ''-p'', show_nat port]"

section \<open>The contract\<close>

text \<open>\<open>running\<close> is the set of workers whose rpc server is live; the head's operations leave it alone.\<close>

locale worker_env =
  fixes W :: "'w worker_ctl" and A :: "'w actuator" and H :: "'w health" and running :: "'w \<Rightarrow> node set"
  assumes start: "w_start W n port exe bind w = (r, w') \<Longrightarrow>
      running w' = (if r = Inr () then insert n (running w) else running w)"
    and stop: "w_stop W n port w = (r, w') \<Longrightarrow>
      running w' = (if r = Inr () then running w - {n} else running w)"
    and accepting: "w_accepting W n port w = (b, w') \<Longrightarrow> running w' = running w"
    and head: "a_stage A u d w = (r, w') \<or> a_rollback A u w = (r, w') \<or> a_restart A u w = (r, w') \<or>
        a_commit A w = (r, w') \<Longrightarrow> running w' = running w"
    and commit: "fst (a_commit A w) = Inr ()"
    and probe: "h_healthy H w = (b, w') \<Longrightarrow> running w' = running w"
    and quiet: "running (h_warm H w) = running w" "running (h_pause H w) = running w"
begin

lemma teardown_effect:
  "teardown W ns port w = (fs, w') \<Longrightarrow>
   running w' \<subseteq> running w \<and> (\<forall>n \<in> set ns. n \<in> running w' \<longrightarrow> n_name n \<in> fst ` set fs) \<and>
   running w - set ns \<subseteq> running w'"
proof (induction ns arbitrary: w fs w')
  case (Cons n ns)
  obtain r w1 where s: "w_stop W n port w = (r, w1)" by fastforce
  obtain gs w2 where t: "teardown W ns port w1 = (gs, w2)" by fastforce
  note ih = Cons.IH [OF t]
  from Cons.prems s t have "w' = w2" and fs: "fs = (case r of Inl e \<Rightarrow> (n_name n, e) # gs | Inr _ \<Rightarrow> gs)"
    by (auto split: sum.splits)
  with ih stop [OF s] show ?case by (cases r) auto
qed simp

lemma start_all_effect:
  "start_all W port exe bind done ns w = (r, w') \<Longrightarrow>
   (case r of
      Inr _ \<Rightarrow> running w' = running w \<union> set ns
    | Inl (n, e, st) \<Rightarrow> \<exists>ms rest. ns = ms @ n # rest \<and> st = done @ ms \<and> running w' = running w \<union> set ms)"
proof (induction ns arbitrary: w "done")
  case (Cons n ns)
  obtain r1 w1 where s: "w_start W n port exe bind w = (r1, w1)" by fastforce
  show ?case
  proof (cases r1)
    case (Inl e)
    with Cons.prems s start [OF s] have "r = Inl (n, e, done)" "running w' = running w" by auto
    then show ?thesis by auto
  next
    case (Inr u)
    with Cons.prems s have t: "start_all W port exe bind (done @ [n]) ns w1 = (r, w')" by simp
    have w1: "running w1 = insert n (running w)" using start [OF s] Inr by simp
    from Cons.IH [OF t] show ?thesis
    proof (cases r)
      case (Inl x)
      obtain m e st where x: "x = (m, e, st)" by (cases x) auto
      with Cons.IH [OF t] Inl obtain ms rest where
        "ns = ms @ m # rest" "st = (done @ [n]) @ ms" "running w' = running w1 \<union> set ms" by auto
      then have "n # ns = (n # ms) @ m # rest \<and> st = done @ n # ms \<and> running w' = running w \<union> set (n # ms)"
        using w1 by simp
      with Inl x show ?thesis by (simp only: sum.case prod.case) blast
    next
      case (Inr v)
      with Cons.IH [OF t] w1 show ?thesis by auto
    qed
  qed
qed auto

lemma poll_accept_frame: "poll_accept W H n port k w = (b, w') \<Longrightarrow> running w' = running w"
proof (induction k arbitrary: w)
  case (Suc k)
  obtain c w1 where a: "w_accepting W n port w = (c, w1)" by fastforce
  with Suc.prems Suc.IH [of "if k = 0 then w1 else h_pause H w1"] accepting [OF a] quiet
  show ?case by (cases c) (auto split: if_splits)
qed simp

lemma accept_all_frame: "accept_all W H port k ns w = (x, w') \<Longrightarrow> running w' = running w"
proof (induction ns arbitrary: w)
  case (Cons n ns)
  obtain c w1 where a: "poll_accept W H n port k w = (c, w1)" by fastforce
  with Cons poll_accept_frame [OF a] show ?case by (cases c) auto
qed simp

lemma poll_health_frame: "poll_health H k w = (b, w') \<Longrightarrow> running w' = running w"
proof (induction k arbitrary: w)
  case (Suc k)
  obtain c w1 where a: "h_healthy H w = (c, w1)" by fastforce
  with Suc.prems Suc.IH [of "if k = 0 then w1 else h_pause H w1"] probe [OF a] quiet
  show ?case by (cases c) (auto split: if_splits)
qed simp

lemma head_frame:
  assumes "and_then f g w = (r, w')"
    and "\<And>v q v'. f v = (q, v') \<Longrightarrow> running v' = running v" and "\<And>v q v'. g v = (q, v') \<Longrightarrow> running v' = running v"
  shows "running w' = running w"
  using assms(1) assms(2) [of w] assms(3) by (cases rule: and_then_cases [of f w g]) auto

lemma launch_head_effect:
  assumes run: "launch_head W A H nm u md ws port opts d w = ((res, warn), w')"
  shows "(case res of Inl _ \<Rightarrow> False | Inr out \<Rightarrow> cl_ok out) \<and> running w' = running w \<and> warn = [] \<or>
    \<not> (case res of Inl _ \<Rightarrow> False | Inr out \<Rightarrow> cl_ok out) \<and> running w' \<subseteq> running w \<and>
      (\<forall>n \<in> set ws. n \<in> running w' \<longrightarrow> n_name n \<in> fst ` set warn)"
proof -
  obtain r w1 where 1: "and_then (a_stage A u d) (a_restart A u) w = (r, w1)" by fastforce
  have f1: "running w1 = running w" using head by (intro head_frame [OF 1]) blast+
  obtain b w2 where 2: "poll_health H (o_attempts opts) w1 = (b, w2)" by fastforce
  have f2: "running w2 = running w1" by (rule poll_health_frame [OF 2])
  let ?w3 = "if o_prewarm opts then h_warm H w2 else w2"
  obtain w4 where 4: "a_commit A ?w3 = (Inr (), w4)" using commit [of ?w3] by (cases "a_commit A ?w3") auto
  have f4: "running w4 = running w2" using head [of u d ?w3 "Inr ()" w4] 4 quiet by auto
  obtain r5 w5 where 5: "and_then (a_rollback A u) (a_restart A u) w2 = (r5, w5)" by fastforce
  have f5: "running w5 = running w2" using head by (intro head_frame [OF 5]) blast+
  obtain fs6 w6 where 6: "teardown W ws port w5 = (fs6, w6)" by fastforce
  obtain fs7 w7 where 7: "teardown W ws port w1 = (fs7, w7)" by fastforce
  note t6 = teardown_effect [OF 6] and t7 = teardown_effect [OF 7]
  show ?thesis
  proof (cases r)
    case (Inl e)
    with run 1 7 have "res = Inl e" "warn = fs7" "w' = w7" by (auto simp: launch_head_def)
    with t7 f1 show ?thesis by simp
  next
    case (Inr x)
    show ?thesis
    proof (cases b)
      case True
      with run 1 2 4 Inr show ?thesis using f1 f2 f4 by (auto simp: launch_head_def)
    next
      case False
      with run 1 2 5 6 Inr have "warn = fs6" "w' = w6" "\<not> (case res of Inl _ \<Rightarrow> False | Inr out \<Rightarrow> cl_ok out)"
        by (auto simp: launch_head_def cluster_failure_def split: sum.splits)
      with t6 f1 f2 f5 show ?thesis by simp
    qed
  qed
qed

text \<open>A cluster never half-forms: it is up on every worker, or no worker is left running unreported.\<close>

lemma up_all_or_none:
  assumes run: "up find_bin find_dir W A H nm u md p ws port exe bind opts w = ((res, warn), w')"
    and fresh: "running w \<inter> set ws = {}"
  shows "(case res of Inl _ \<Rightarrow> False | Inr out \<Rightarrow> cl_ok out) \<and> set ws \<subseteq> running w' \<and> warn = [] \<or>
    \<not> (case res of Inl _ \<Rightarrow> False | Inr out \<Rightarrow> cl_ok out) \<and>
      (\<forall>n \<in> set ws. n \<in> running w' \<longrightarrow> n_name n \<in> fst ` set warn)"
proof -
  obtain r w1 where 1: "start_all W port exe bind [] ws w = (r, w1)" by fastforce
  note s1 = start_all_effect [OF 1]
  show ?thesis
  proof (cases r)
    case (Inl x)
    obtain n e st where x: "x = (n, e, st)" by (cases x) auto
    obtain fs w2 where 2: "teardown W st port w1 = (fs, w2)" by fastforce
    note t2 = teardown_effect [OF 2]
    from run 1 2 Inl x have "warn = fs" "w' = w2" "\<not> (case res of Inl _ \<Rightarrow> False | Inr out \<Rightarrow> cl_ok out)"
      by (auto simp: up_def cluster_failure_def)
    moreover from s1 Inl x have "running w1 = running w \<union> set st" by auto
    then have "\<forall>n \<in> set ws. n \<in> running w2 \<longrightarrow> n_name n \<in> fst ` set fs" using t2 fresh by blast
    ultimately show ?thesis by simp
  next
    case (Inr y)
    with s1 have r1: "running w1 = running w \<union> set ws" by simp
    obtain a w2 where 2: "accept_all W H port (o_attempts opts) ws w1 = (a, w2)" by fastforce
    note f2 = accept_all_frame [OF 2]
    show ?thesis
    proof (cases a)
      case (Some n)
      obtain fs w3 where 3: "teardown W ws port w2 = (fs, w3)" by fastforce
      from run 1 2 3 Inr Some have "warn = fs" "w' = w3" "\<not> (case res of Inl _ \<Rightarrow> False | Inr out \<Rightarrow> cl_ok out)"
        by (auto simp: up_def cluster_failure_def)
      with teardown_effect [OF 3] show ?thesis by simp
    next
      case None
      with run 1 2 Inr have l: "launch_head W A H nm u (m_name md) ws port opts
          (cluster_dropin find_bin find_dir md p ws port opts) w2 = ((res, warn), w')"
        by (simp add: up_def)
      from launch_head_effect [OF l] f2 r1 show ?thesis by blast
    qed
  qed
qed

lemma down_effect:
  assumes run: "down clear W ws port w = (Inr fs, w')"
    and frame: "\<And>v q v'. clear v = (q, v') \<Longrightarrow> running v' = running v"
  shows "\<forall>n \<in> set ws. n \<in> running w' \<longrightarrow> n_name n \<in> fst ` set fs"
proof -
  obtain gs w1 where 1: "teardown W ws port w = (gs, w1)" by fastforce
  from run 1 have "clear w1 = (Inr (), w')" "fs = gs"
    by (auto simp: down_def split: prod.splits sum.splits)
  with frame teardown_effect [OF 1] show ?thesis by metis
qed

end

section \<open>The rack\<close>

text \<open>
  Workers beside the head's systemd world: the workers whose rpc server runs, the outcomes of the commands
  to come (true is a failure; all succeed once the list is used up), and the answers of the port checks.
\<close>

record rack =
  rk_running :: "node list"
  rk_faults :: "bool list"
  rk_accepts :: "bool list"

definition rack_cmd :: "(rack \<Rightarrow> rack) \<Rightarrow> (string, rack) step" where
  "rack_cmd f k =
     (case rk_faults k of
        [] \<Rightarrow> (Inr (), f k)
      | b # bs \<Rightarrow> if b then (Inl ''command failed'', k\<lparr>rk_faults := bs\<rparr>) else (Inr (), f (k\<lparr>rk_faults := bs\<rparr>)))"

definition rack_start :: "node \<Rightarrow> (string, rack) step" where
  "rack_start n = rack_cmd (\<lambda>k. k\<lparr>rk_running := n # rk_running k\<rparr>)"

definition rack_stop :: "node \<Rightarrow> (string, rack) step" where
  "rack_stop n = rack_cmd (\<lambda>k. k\<lparr>rk_running := filter (\<lambda>m. m \<noteq> n) (rk_running k)\<rparr>)"

definition rack_accepting :: "node \<Rightarrow> rack \<Rightarrow> bool \<times> rack" where
  "rack_accepting n k = (case rk_accepts k of [] \<Rightarrow> (True, k) | b # bs \<Rightarrow> (b, k\<lparr>rk_accepts := bs\<rparr>))"

text \<open>An operation on one half of the world.\<close>

definition on_head :: "(sysd \<Rightarrow> 'a \<times> sysd) \<Rightarrow> sysd \<times> rack \<Rightarrow> 'a \<times> (sysd \<times> rack)" where
  "on_head f w = (let (x, s) = f (fst w) in (x, (s, snd w)))"

definition on_rack :: "(rack \<Rightarrow> 'a \<times> rack) \<Rightarrow> sysd \<times> rack \<Rightarrow> 'a \<times> (sysd \<times> rack)" where
  "on_rack f w = (let (x, k) = f (snd w) in (x, (fst w, k)))"

definition rack_ctl :: "(sysd \<times> rack) worker_ctl" where
  "rack_ctl = \<lparr>w_start = (\<lambda>n port exe bind. on_rack (rack_start n)), w_stop = (\<lambda>n port. on_rack (rack_stop n)),
     w_accepting = (\<lambda>n port. on_rack (rack_accepting n))\<rparr>"

definition head_actuator :: "(sysd \<times> rack) actuator" where
  "head_actuator = \<lparr>a_stage = (\<lambda>u d. on_head (stage u d)), a_rollback = (\<lambda>u. on_head (rollback u)),
     a_commit = on_head commit, a_restart = (\<lambda>u. on_head (reload_restart u))\<rparr>"

definition head_health :: "(sysd \<times> rack) health" where
  "head_health = \<lparr>h_healthy = on_head http_healthy, h_served = on_head http_served, h_warm = id, h_pause = id\<rparr>"

definition rack_running :: "sysd \<times> rack \<Rightarrow> node set" where
  "rack_running w = set (rk_running (snd w))"

lemma rack_cmd_cases:
  assumes "on_rack (rack_cmd f) w = (r, w')"
  obtains k where "r = Inr ()" "w' = (fst w, f k)" "rk_running k = rk_running (snd w)"
  | e k where "r = Inl e" "w' = (fst w, k)" "rk_running k = rk_running (snd w)"
  using assms by (cases "rk_faults (snd w)") (auto simp: on_rack_def rack_cmd_def split: if_splits)

lemma on_head_rack: "on_head f w = (x, w') \<Longrightarrow> rack_running w' = rack_running w"
  by (auto simp: on_head_def rack_running_def split: prod.splits)

lemmas rack_sel = rack_ctl_def head_actuator_def head_health_def worker_ctl.simps actuator.simps health.simps id_def

interpretation rk: worker_env rack_ctl head_actuator head_health rack_running
proof
  show "w_start rack_ctl n port exe bind w = (r, w') \<Longrightarrow>
      rack_running w' = (if r = Inr () then insert n (rack_running w) else rack_running w)" for n port exe bind w r w'
    unfolding rack_sel rack_start_def by (erule rack_cmd_cases) (simp_all add: rack_running_def)
  show "w_stop rack_ctl n port w = (r, w') \<Longrightarrow>
      rack_running w' = (if r = Inr () then rack_running w - {n} else rack_running w)" for n port w r w'
    unfolding rack_sel rack_stop_def by (erule rack_cmd_cases) (auto simp: rack_running_def)
  show "w_accepting rack_ctl n port w = (b, w') \<Longrightarrow> rack_running w' = rack_running w" for n port w b w'
    by (auto simp: rack_sel on_rack_def rack_accepting_def rack_running_def split: list.splits prod.splits)
  show "a_stage head_actuator u d w = (r, w') \<or> a_rollback head_actuator u w = (r, w') \<or>
      a_restart head_actuator u w = (r, w') \<or> a_commit head_actuator w = (r, w') \<Longrightarrow>
      rack_running w' = rack_running w" for u d w r w'
    unfolding rack_sel by (elim disjE) (erule on_head_rack)+
  show "fst (a_commit head_actuator w) = Inr ()" for w
    by (simp add: rack_sel on_head_def commit_def)
  show "h_healthy head_health w = (b, w') \<Longrightarrow> rack_running w' = rack_running w" for w b w'
    unfolding rack_sel by (erule on_head_rack)
  show "rack_running (h_warm head_health w) = rack_running w" "rack_running (h_pause head_health w) = rack_running w" for w
    by (simp_all add: rack_sel)
qed


definition demo_worker :: "string \<Rightarrow> node" where
  "demo_worker nm = demo_node\<lparr>n_name := nm, n_transport := Ssh, n_host := Some nm\<rparr>"

lemma demo_worker_inj [simp]: "demo_worker a = demo_worker b \<longleftrightarrow> a = b"
proof
  assume "demo_worker a = demo_worker b"
  then have "n_name (demo_worker a) = n_name (demo_worker b)" by simp
  then show "a = b" by (simp add: demo_worker_def)
qed simp

lemma demo_worker_name [simp]: "n_name (demo_worker a) = a"
  by (simp add: demo_worker_def)

definition demo_rack :: "bool list \<Rightarrow> bool list \<Rightarrow> rack" where
  "demo_rack fs acc = \<lparr>rk_running = [], rk_faults = fs, rk_accepts = acc\<rparr>"


definition down_on_rack :: "string \<Rightarrow> node list \<Rightarrow> nat \<Rightarrow> sysd \<times> rack \<Rightarrow> (string + warnings) \<times> (sysd \<times> rack)" where
  "down_on_rack u = down (on_head (clear_dropin u)) rack_ctl"

lemma teardown_head: "teardown rack_ctl ws port w = (fs, w') \<Longrightarrow> fst w' = fst w"
proof (induction ws arbitrary: w fs w')
  case (Cons n ns)
  obtain r w1 where s: "on_rack (rack_stop n) w = (r, w1)" by (rule prod.exhaust)
  obtain gs w2 where t: "teardown rack_ctl ns port w1 = (gs, w2)" by (rule prod.exhaust)
  from s have "fst w1 = fst w" by (auto simp: on_rack_def split: prod.splits)
  with Cons.IH [OF t] Cons.prems s t show ?case by (cases r) (auto simp: rack_sel)
qed simp



section \<open>Parity\<close>

lemma skewed_Nil: "skewed v ws = [] \<longleftrightarrow> (\<forall>p \<in> set ws. \<forall>y. snd p = Some y \<longrightarrow> y = v)"
  by (induction ws) (auto simp: skewed_def split: option.splits if_splits)

lemma unknown_Nil: "unknown ws = [] \<longleftrightarrow> (\<forall>p \<in> set ws. snd p \<noteq> None)"
  by (auto simp: unknown_def filter_empty_conv)

text \<open>
 C30: The parity check is exact: it says Match exactly if the head and every worker report the same
  version, Mismatch exactly if the head's version is known and some worker reports another one, and
  then the skewed workers are named with theirs; anything else is unverified.
\<close>

theorem check_parity_exact:
  "(check_parity b hd_ver ws = Match) = (hd_ver \<noteq> None \<and> list_all (\<lambda>p. snd p = hd_ver) ws) \<and>
   (case check_parity b hd_ver ws of
      Mismatch b' v sk \<Rightarrow> b' = b \<and> hd_ver = Some v \<and> sk \<noteq> [] \<and>
        set sk = {(n, y). (n, Some y) \<in> set ws \<and> y \<noteq> v}
    | _ \<Rightarrow> hd_ver = None \<or> (\<forall>p \<in> set ws. snd p = None \<or> snd p = hd_ver))"
proof (cases hd_ver)
  case None
  then show ?thesis by (simp add: check_parity_def)
next
  case (Some v)
  have sk: "set (skewed v ws) = {(n, y). (n, Some y) \<in> set ws \<and> y \<noteq> v}"
    by (induction ws) (auto simp: skewed_def split: option.splits)
  consider "skewed v ws \<noteq> []" | "skewed v ws = []" "unknown ws \<noteq> []" | "skewed v ws = []" "unknown ws = []" by blast
  then show ?thesis
  proof cases
    case 1
    then have "\<not> list_all (\<lambda>p. snd p = hd_ver) ws" using Some by (fastforce simp: skewed_Nil list_all_iff)
    with 1 Some sk show ?thesis by (simp add: check_parity_def)
  next
    case 2
    have "\<forall>p \<in> set ws. snd p = None \<or> snd p = hd_ver"
      using 2(1) Some unfolding skewed_Nil by (metis option.exhaust)
    moreover have "\<exists>p \<in> set ws. snd p = None" using 2(2) by (auto simp: unknown_Nil)
    moreover have "\<not> list_all (\<lambda>p. snd p = hd_ver) ws" using calculation Some by (auto simp: list_all_iff) force
    ultimately show ?thesis using 2 Some by (simp add: check_parity_def)
  next
    case 3
    then have "\<forall>p \<in> set ws. snd p = hd_ver" using Some by (auto simp: skewed_Nil unknown_Nil)
    with 3 Some show ?thesis by (simp add: check_parity_def list_all_iff)
  qed
qed

lemma check_parity_exact_witness:
  "check_parity ''b'' (Some ''v1'') [(''w'', Some ''v2''), (''x'', None)] \<noteq> Match"
  using check_parity_exact [of "''b''" "Some ''v1''" "[(''w'', Some ''v2''), (''x'', None)]"] by simp

section \<open>The commands on the workers\<close>

text \<open>A command on a remote worker arrives as it was given, whatever the binary's path or address contains.\<close>

lemma run_on_exact:
  assumes "n_transport n \<noteq> Local"
  shows "\<exists>opts cmd. ssh_parse (snd (run_on_argv strict n argv)) = Some (opts, ssh_target n, cmd) \<and>
    sh_words cmd = Some (''sudo'' # argv)"
proof -
  have s: "sh_quote ''sudo'' = ''sudo''" by code_simp
  have e: "snd (run_on_argv strict n argv) = ssh_options strict n @ ''--'' # ssh_target n # map sh_quote (''sudo'' # argv)"
    using assms by (simp only: run_on_argv_def if_False snd_conv list.map s append_Cons append_Nil)
  show ?thesis unfolding e ssh_parse_options
    by (rule exI, rule exI, rule conjI [OF refl]) (rule sh_words_quoted)
qed

section \<open>A gap\<close>

text \<open>
  When staging succeeds and the restart fails, the workers are stopped but the head keeps the cluster
  drop-in: the previous one is gone, and no rollback is attempted although the memory of the actuator
  holds it.
\<close>

lemma and_then_on_head: "and_then (on_head f) (on_head g) = on_head (and_then f g)"
  by (rule ext) (auto simp: and_then_def on_head_def split: prod.splits sum.splits)

definition stuck_head :: sysd where
  "stuck_head = demo_sysd []\<lparr>confs := [((Etc, ''m.conf''), marker)],
     sfaults := replicate 7 Io_ok @ [Io_fail 0]\<rparr>"

lemma stuck_head_stage: "is_ok (fst (stage ''u'' ''d'' stuck_head))"
  by code_simp

lemma stuck_head_restart: "\<not> is_ok (fst (reload_restart ''u'' (snd (stage ''u'' ''d'' stuck_head))))"
  by code_simp

lemma stuck_head_confs:
  "confs (snd (reload_restart ''u'' (snd (stage ''u'' ''d'' stuck_head)))) = [((Etc, ''zzzzzz-llmtune.conf''), ''d'')]"
  by code_simp

lemma stuck_head_removed:
  "removed (snd (reload_restart ''u'' (snd (stage ''u'' ''d'' stuck_head)))) = Some ((Etc, ''m.conf''), marker)"
  by code_simp

lemma up_restart_error_keeps_cluster_dropin:
  "let ((res, warn), w') = launch_head rack_ctl head_actuator head_health ''c'' ''u'' ''m'' [demo_worker ''a''] 1
         demo_opts ''d'' (stuck_head, demo_rack [] [])
   in \<not> is_ok res \<and> confs (fst w') = [((Etc, ''zzzzzz-llmtune.conf''), ''d'')] \<and>
      removed (fst w') = Some ((Etc, ''m.conf''), marker)"
proof -
  obtain r1 s1 where 1: "stage ''u'' ''d'' stuck_head = (r1, s1)" by (rule prod.exhaust)
  obtain r s' where 2: "reload_restart ''u'' s1 = (r, s')" by (rule prod.exhaust)
  have e: "confs s' = [((Etc, ''zzzzzz-llmtune.conf''), ''d'')]" "removed s' = Some ((Etc, ''m.conf''), marker)"
    using stuck_head_confs stuck_head_removed by (simp_all add: 1 2)
  obtain x where x: "r = Inl x" using stuck_head_restart by (cases r) (simp_all add: 1 2)
  have r: "and_then (stage ''u'' ''d'') (reload_restart ''u'') stuck_head = (r, s')"
    using stuck_head_stage by (cases r1) (simp_all add: 1 2 and_then_def)
  have "and_then (a_stage head_actuator ''u'' ''d'') (a_restart head_actuator ''u'') (stuck_head, demo_rack [] [])
      = (Inl x, (s', demo_rack [] []))"
    using r x by (simp add: head_actuator_def and_then_on_head on_head_def)
  moreover have "teardown rack_ctl [demo_worker ''a''] 1 (s', demo_rack [] []) = ([], (s', demo_rack [] []))"
    by (simp add: rack_ctl_def on_rack_def rack_stop_def rack_cmd_def demo_rack_def)
  ultimately have "launch_head rack_ctl head_actuator head_health ''c'' ''u'' ''m'' [demo_worker ''a''] 1
      demo_opts ''d'' (stuck_head, demo_rack [] []) = ((Inl x, []), (s', demo_rack [] []))"
    unfolding launch_head_def by (simp only: prod.case sum.case Let_def)
  then show ?thesis using e by simp
qed

end
