(* ===== verification/Paths.thy ===== *)
theory Paths
  imports Pathlib
begin

text \<open>
  The persistence spine (src/src/paths.rs): where state and configuration live, and the crash-safe write.
  The disk has volatile and durable directory entries and files whose data is durable only once synced.
  Every system call takes an outcome from a list (success once the list is used up): success, a failure,
  or a power loss during the call, after part of its effect. \<open>survives\<close> says which contents a path can
  have after a power loss.
\<close>

section \<open>Directories\<close>

record penv =
  e_state_dir :: "string option"
  e_xdg_data :: "string option"
  e_xdg_config :: "string option"
  e_home :: "string option"
  e_sudo_user :: "string option"
  e_passwd :: "string option"
  e_temp :: string
  e_root :: bool
  e_sys_dir :: bool
  e_sys_create :: bool

definition nonempty_str :: "string option \<Rightarrow> string option" where
  "nonempty_str s = (case s of None \<Rightarrow> None | Some x \<Rightarrow> if x = [] then None else Some x)"

definition xdg_data_dir_from :: "string \<Rightarrow> string option \<Rightarrow> string option \<Rightarrow> string" where
  "xdg_data_dir_from temp xdg home =
     (case nonempty_str xdg of
        Some x \<Rightarrow> path_join x ''llmtune''
      | None \<Rightarrow>
          (case home of
             Some h \<Rightarrow> path_join h ''.local/share/llmtune''
           | None \<Rightarrow> path_join temp ''llmtune''))"

definition xdg_data_dir :: "penv \<Rightarrow> string" where
  "xdg_data_dir e = xdg_data_dir_from (e_temp e) (e_xdg_data e) (e_home e)"

definition system_home :: string where
  "system_home = ''/var/lib/llmtune''"

definition state_dir :: "penv \<Rightarrow> string" where
  "state_dir e =
     (case e_state_dir e of
        Some d \<Rightarrow> d
      | None \<Rightarrow> if e_root e \<and> (e_sys_dir e \<or> e_sys_create e) then system_home else xdg_data_dir e)"

definition shared_state_dir :: "penv \<Rightarrow> string" where
  "shared_state_dir e =
     (case e_state_dir e of
        Some d \<Rightarrow> d
      | None \<Rightarrow>
          if e_sys_dir e then system_home
          else if e_root e \<and> e_sys_create e then system_home
          else xdg_data_dir e)"

definition config_dir_from :: "string option \<Rightarrow> string option \<Rightarrow> string option" where
  "config_dir_from xdg home =
     (case nonempty_str xdg of
        Some x \<Rightarrow> Some (path_join x ''llmtune'')
      | None \<Rightarrow> map_option (\<lambda>h. path_join h ''.config/llmtune'') home)"

definition passwd_home :: "string \<Rightarrow> string \<Rightarrow> string option" where
  "passwd_home user l =
     (let fs = split_on CHR '':'' l
      in if hd fs = user \<and> length fs > 5 \<and> fs ! 5 \<noteq> [] then Some (fs ! 5) else None)"

definition home_from_passwd :: "string \<Rightarrow> string \<Rightarrow> string option" where
  "home_from_passwd t user = find_map (passwd_home user) (lines t)"

definition sudo_invoker_home :: "penv \<Rightarrow> string option" where
  "sudo_invoker_home e =
     (case e_sudo_user e of
        None \<Rightarrow> None
      | Some u \<Rightarrow>
          if u = [] \<or> u = ''root'' then None
          else (case e_passwd e of None \<Rightarrow> None | Some t \<Rightarrow> home_from_passwd t u))"

definition config_dir :: "penv \<Rightarrow> string option" where
  "config_dir e =
     (case sudo_invoker_home e of
        Some h \<Rightarrow> Some (path_join h ''.config/llmtune'')
      | None \<Rightarrow> config_dir_from (e_xdg_config e) (e_home e))"

definition config_file :: "penv \<Rightarrow> string \<Rightarrow> string option" where
  "config_file e nm = map_option (\<lambda>d. path_join d nm) (config_dir e)"

section \<open>The disk\<close>

record inode =
  i_data :: string
  i_mode :: nat
  i_synced :: bool

record disk =
  inodes :: "nat \<Rightarrow> inode option"
  dirv :: "string \<Rightarrow> nat option"
  dird :: "string \<Rightarrow> nat option"
  next_ino :: nat
  new_mode :: nat

datatype fault = F_ok | F_fail nat | F_crash nat

type_synonym dstate = "disk \<times> fault list"

datatype ran = Ret bool | Crashed

text \<open>The effect of a call: all of it, or the part done when it failed or when the power went.\<close>

datatype extent = Whole | Part nat | Cut nat

fun call :: "(extent \<Rightarrow> disk \<Rightarrow> disk) \<Rightarrow> dstate \<Rightarrow> ran \<times> dstate" where
  "call f (s, []) = (Ret True, (f Whole s, []))"
| "call f (s, F_ok # fs) = (Ret True, (f Whole s, fs))"
| "call f (s, F_fail n # fs) = (Ret False, (f (Part n) s, fs))"
| "call f (s, F_crash n # fs) = (Crashed, (f (Cut n) s, fs))"

definition seq :: "(dstate \<Rightarrow> ran \<times> dstate) \<Rightarrow> (dstate \<Rightarrow> ran \<times> dstate) \<Rightarrow> dstate \<Rightarrow> ran \<times> dstate" where
  "seq f g w = (case f w of (Ret True, w') \<Rightarrow> g w' | r \<Rightarrow> r)"

text \<open>A call without an intermediate effect: not done when it fails, done or not when the power goes.\<close>

definition atomic :: "(disk \<Rightarrow> disk) \<Rightarrow> extent \<Rightarrow> disk \<Rightarrow> disk" where
  "atomic g x s = (case x of Whole \<Rightarrow> g s | Part _ \<Rightarrow> s | Cut n \<Rightarrow> if n = 0 then s else g s)"

definition upd :: "string \<Rightarrow> (inode \<Rightarrow> inode) \<Rightarrow> disk \<Rightarrow> disk" where
  "upd p f s = (case dirv s p of None \<Rightarrow> s | Some i \<Rightarrow> s\<lparr>inodes := (inodes s)(i := map_option f (inodes s i))\<rparr>)"

definition d_create :: "string \<Rightarrow> disk \<Rightarrow> disk" where
  "d_create p s =
     (case dirv s p of
        Some i \<Rightarrow> upd p (\<lambda>n. n\<lparr>i_data := [], i_synced := False\<rparr>) s
      | None \<Rightarrow> s\<lparr>inodes := (inodes s)(next_ino s \<mapsto> \<lparr>i_data = [], i_mode = new_mode s, i_synced = False\<rparr>),
                 dirv := (dirv s)(p \<mapsto> next_ino s), next_ino := Suc (next_ino s)\<rparr>)"

definition d_chmod :: "string \<Rightarrow> nat \<Rightarrow> disk \<Rightarrow> disk" where
  "d_chmod p m = upd p (\<lambda>n. n\<lparr>i_mode := m\<rparr>)"

definition d_write :: "string \<Rightarrow> string \<Rightarrow> extent \<Rightarrow> disk \<Rightarrow> disk" where
  "d_write p c x = upd p (\<lambda>n. n\<lparr>i_data := (case x of Whole \<Rightarrow> c | Part k \<Rightarrow> take k c | Cut k \<Rightarrow> take k c), i_synced := False\<rparr>)"

definition d_sync :: "string \<Rightarrow> disk \<Rightarrow> disk" where
  "d_sync p = upd p (\<lambda>n. n\<lparr>i_synced := True\<rparr>)"

definition d_rename :: "string \<Rightarrow> string \<Rightarrow> disk \<Rightarrow> disk" where
  "d_rename p q s = s\<lparr>dirv := (dirv s)(q := dirv s p, p := None)\<rparr>"

definition d_remove :: "string \<Rightarrow> disk \<Rightarrow> disk" where
  "d_remove p s = s\<lparr>dirv := (dirv s)(p := None)\<rparr>"

definition d_syncdir :: "disk \<Rightarrow> disk" where
  "d_syncdir s = s\<lparr>dird := dirv s\<rparr>"

definition content :: "disk \<Rightarrow> string \<Rightarrow> string option" where
  "content s p = (case dirv s p of None \<Rightarrow> None | Some i \<Rightarrow> map_option i_data (inodes s i))"

definition mode_of :: "disk \<Rightarrow> string \<Rightarrow> nat option" where
  "mode_of s p = (case dirv s p of None \<Rightarrow> None | Some i \<Rightarrow> map_option i_mode (inodes s i))"

text \<open>After a power loss a directory entry is the volatile or the durable one, and unsynced data is anything.\<close>

definition survives :: "disk \<Rightarrow> string \<Rightarrow> string option \<Rightarrow> bool" where
  "survives s p c \<longleftrightarrow> (\<exists>d \<in> {dirv s p, dird s p}.
     case d of None \<Rightarrow> c = None
     | Some i \<Rightarrow> (case inodes s i of None \<Rightarrow> False | Some n \<Rightarrow> i_synced n \<longrightarrow> c = Some (i_data n)))"

section \<open>The durable write\<close>

definition tmp_name :: "nat \<Rightarrow> nat \<Rightarrow> string \<Rightarrow> string" where
  "tmp_name pid sq p = p @ ''.tmp.'' @ show_nat pid @ ''.'' @ show_nat sq"

definition owner_only :: nat where
  "owner_only = 384"

definition set_mode :: "bool \<Rightarrow> string \<Rightarrow> string \<Rightarrow> dstate \<Rightarrow> ran \<times> dstate" where
  "set_mode secret p t w =
     (if secret then call (atomic (d_chmod t owner_only)) w
      else case mode_of (fst w) p of
        None \<Rightarrow> (Ret True, w)
      | Some m \<Rightarrow> call (atomic (d_chmod t m)) w)"

definition stage_tmp :: "bool \<Rightarrow> string \<Rightarrow> string \<Rightarrow> string \<Rightarrow> dstate \<Rightarrow> ran \<times> dstate" where
  "stage_tmp secret p t c =
     seq (call (atomic (d_create t)))
       (seq (set_mode secret p t) (seq (call (d_write t c)) (call (atomic (d_sync t)))))"

definition write_durable_impl :: "nat \<Rightarrow> nat \<Rightarrow> bool \<Rightarrow> string \<Rightarrow> string \<Rightarrow> dstate \<Rightarrow> ran \<times> dstate" where
  "write_durable_impl pid sq secret p c =
     (let t = tmp_name pid sq p in
      seq (call (atomic id))
        (\<lambda>w. case seq (stage_tmp secret p t c) (call (atomic (d_rename t p))) w of
               (Crashed, w) \<Rightarrow> (Crashed, w)
             | (Ret False, w) \<Rightarrow>
                 (case call (atomic (d_remove t)) w of
                    (Crashed, w) \<Rightarrow> (Crashed, w)
                  | (Ret _, w) \<Rightarrow> (Ret False, w))
             | (Ret True, w) \<Rightarrow>
                 (case call (atomic d_syncdir) w of
                    (Crashed, w) \<Rightarrow> (Crashed, w)
                  | (Ret _, w) \<Rightarrow> (Ret True, w))))"

definition write_durable :: "nat \<Rightarrow> nat \<Rightarrow> string \<Rightarrow> string \<Rightarrow> dstate \<Rightarrow> ran \<times> dstate" where
  "write_durable pid sq = write_durable_impl pid sq False"

definition write_durable_secret :: "nat \<Rightarrow> nat \<Rightarrow> string \<Rightarrow> string \<Rightarrow> dstate \<Rightarrow> ran \<times> dstate" where
  "write_durable_secret pid sq = write_durable_impl pid sq True"

section \<open>Crash safety\<close>

text \<open>The disk a write starts from: the target is durable, the temporary name is free.\<close>

definition disk_ok :: "string \<Rightarrow> string \<Rightarrow> disk \<Rightarrow> bool" where
  "disk_ok p t s \<longleftrightarrow> dird s p = dirv s p \<and> dirv s t = None \<and> (\<forall>q i. dirv s q = Some i \<longrightarrow> i < next_ino s) \<and>
     (\<forall>i. dirv s p = Some i \<longrightarrow> (\<exists>n. inodes s i = Some n \<and> i_synced n))"

text \<open>The disk while the temporary file \<open>t\<close> exists with the inode \<open>n\<close>, and after it took the name \<open>p\<close>.\<close>

definition with_tmp :: "disk \<Rightarrow> string \<Rightarrow> inode \<Rightarrow> disk" where
  "with_tmp s t n = s\<lparr>inodes := (inodes s)(next_ino s \<mapsto> n), dirv := (dirv s)(t \<mapsto> next_ino s),
     next_ino := Suc (next_ino s)\<rparr>"

definition secret_ok :: "bool \<Rightarrow> inode \<Rightarrow> bool" where
  "secret_ok secret n \<longleftrightarrow> (secret \<and> i_data n \<noteq> [] \<longrightarrow> i_mode n = owner_only)"

definition tmp_ok :: "bool \<Rightarrow> string \<Rightarrow> inode \<Rightarrow> bool" where
  "tmp_ok secret c n \<longleftrightarrow> i_data n = c \<and> i_synced n \<and> (secret \<longrightarrow> i_mode n = owner_only)"

lemma tmp_neq [simp]: "tmp_name pid sq p \<noteq> p" "p \<noteq> tmp_name pid sq p"
  by (simp_all add: tmp_name_def)

lemma call_cases:
  assumes "call f (s, fs) = (r, (s', fs'))"
  obtains "r = Ret True" "s' = f Whole s" | n where "r = Ret False" "s' = f (Part n) s"
    | n where "r = Crashed" "s' = f (Cut n) s"
  using assms by (cases "(f, (s, fs))" rule: call.cases) auto

lemma seq_cases:
  assumes "seq f g w = (r, w')"
  obtains w1 where "f w = (Ret True, w1)" "g w1 = (r, w')" | "f w = (r, w')" "r \<noteq> Ret True"
  using assms by (auto simp: seq_def split: prod.splits ran.splits bool.splits)

lemma with_tmp_upd: "upd t f (with_tmp s t n) = with_tmp s t (f n)"
  by (simp add: upd_def with_tmp_def)

lemma create_cases:
  assumes "call (atomic (d_create t)) (s, fs) = (r, (s', fs'))" and "dirv s t = None"
  shows "s' = s \<and> r \<noteq> Ret True \<or> s' = with_tmp s t \<lparr>i_data = [], i_mode = new_mode s, i_synced = False\<rparr>"
  using assms(1) by (rule call_cases) (auto simp: atomic_def d_create_def with_tmp_def assms(2))

lemma set_mode_cases:
  assumes "set_mode secret p t (with_tmp s t n, fs) = (r, (s', fs'))"
  shows "\<exists>m. s' = with_tmp s t (n\<lparr>i_mode := m\<rparr>) \<and> (r = Ret True \<and> secret \<longrightarrow> m = owner_only)"
proof (cases "secret \<or> mode_of (with_tmp s t n) p \<noteq> None")
  case False
  with assms have "r = Ret True" "s' = with_tmp s t (n\<lparr>i_mode := i_mode n\<rparr>)" "\<not> secret"
    by (auto simp: set_mode_def)
  then show ?thesis by blast
next
  case True
  then obtain m where c: "call (atomic (d_chmod t m)) (with_tmp s t n, fs) = (r, (s', fs'))"
    and m: "secret \<longrightarrow> m = owner_only"
    using assms by (auto simp: set_mode_def split: if_splits)
  have d: "d_chmod t m (with_tmp s t n) = with_tmp s t (n\<lparr>i_mode := m\<rparr>)"
    by (simp add: d_chmod_def with_tmp_upd)
  have n: "with_tmp s t n = with_tmp s t (n\<lparr>i_mode := i_mode n\<rparr>)" by simp
  have "s' \<in> {with_tmp s t (n\<lparr>i_mode := m\<rparr>), with_tmp s t n} \<and> (r = Ret True \<longrightarrow> s' = with_tmp s t (n\<lparr>i_mode := m\<rparr>))"
    using c by (rule call_cases) (simp_all add: atomic_def d)
  then show ?thesis using m n by (metis insertE singletonD)
qed

lemma write_cases:
  assumes "call (d_write t c) (with_tmp s t n, fs) = (r, (s', fs'))"
  shows "\<exists>d. s' = with_tmp s t (n\<lparr>i_data := d, i_synced := False\<rparr>) \<and> (r = Ret True \<longrightarrow> d = c)"
  using assms by (rule call_cases) (auto simp: d_write_def with_tmp_upd)

lemma sync_cases:
  assumes "call (atomic (d_sync t)) (with_tmp s t n, fs) = (r, (s', fs'))"
  shows "\<exists>b. s' = with_tmp s t (n\<lparr>i_synced := b\<rparr>) \<and> (r = Ret True \<longrightarrow> b)"
proof -
  have d: "d_sync t (with_tmp s t n) = with_tmp s t (n\<lparr>i_synced := True\<rparr>)" by (simp add: d_sync_def with_tmp_upd)
  have n: "with_tmp s t n = with_tmp s t (n\<lparr>i_synced := i_synced n\<rparr>)" by simp
  have "s' \<in> {with_tmp s t (n\<lparr>i_synced := True\<rparr>), with_tmp s t n} \<and>
      (r = Ret True \<longrightarrow> s' = with_tmp s t (n\<lparr>i_synced := True\<rparr>))"
    using assms by (rule call_cases) (simp_all add: atomic_def d)
  then show ?thesis using n by (metis insertE singletonD)
qed

text \<open>Building the temporary file: nothing else changes, and data of a secret is never in a wider mode.\<close>

lemma stage_tmp_cases:
  assumes run: "stage_tmp secret p t c (s, fs) = (r, (s', fs'))" and t: "dirv s t = None"
  shows "s' = s \<and> r \<noteq> Ret True \<or>
    (\<exists>n. s' = with_tmp s t n \<and> secret_ok secret n \<and> (r = Ret True \<longrightarrow> tmp_ok secret c n))"
  using run unfolding stage_tmp_def
proof (rule seq_cases)
  assume "call (atomic (d_create t)) (s, fs) = (r, (s', fs'))" "r \<noteq> Ret True"
  from create_cases [OF this(1) t] this(2) show ?thesis by (auto simp: secret_ok_def)
next
  fix w1
  assume c1: "call (atomic (d_create t)) (s, fs) = (Ret True, w1)"
    and r1: "seq (set_mode secret p t) (seq (call (d_write t c)) (call (atomic (d_sync t)))) w1 = (r, (s', fs'))"
  let ?n = "\<lparr>i_data = [], i_mode = new_mode s, i_synced = False\<rparr>"
  obtain fs1 where w1: "w1 = (with_tmp s t ?n, fs1)"
    using create_cases [of t s fs "Ret True" "fst w1" "snd w1"] c1 t by (cases w1) auto
  from r1 [unfolded w1] show ?thesis
  proof (rule seq_cases)
    assume "set_mode secret p t (with_tmp s t ?n, fs1) = (r, (s', fs'))" "r \<noteq> Ret True"
    with set_mode_cases [OF this(1)] show ?thesis by (auto simp: secret_ok_def)
  next
    fix w2
    assume c2: "set_mode secret p t (with_tmp s t ?n, fs1) = (Ret True, w2)"
      and r2: "seq (call (d_write t c)) (call (atomic (d_sync t))) w2 = (r, (s', fs'))"
    obtain m fs2 where w2: "w2 = (with_tmp s t (?n\<lparr>i_mode := m\<rparr>), fs2)" and m: "secret \<longrightarrow> m = owner_only"
      using set_mode_cases [of secret p t s ?n fs1 "Ret True" "fst w2" "snd w2"] c2 by (cases w2) auto
    from r2 [unfolded w2] show ?thesis
    proof (rule seq_cases)
      assume "call (d_write t c) (with_tmp s t (?n\<lparr>i_mode := m\<rparr>), fs2) = (r, (s', fs'))" "r \<noteq> Ret True"
      with write_cases [OF this(1)] m show ?thesis by (auto simp: secret_ok_def)
    next
      fix w3
      assume c3: "call (d_write t c) (with_tmp s t (?n\<lparr>i_mode := m\<rparr>), fs2) = (Ret True, w3)"
        and r3: "call (atomic (d_sync t)) w3 = (r, (s', fs'))"
      obtain fs3 where "w3 = (with_tmp s t (?n\<lparr>i_mode := m, i_data := c, i_synced := False\<rparr>), fs3)"
        using write_cases [of t c s "?n\<lparr>i_mode := m\<rparr>" fs2 "Ret True" "fst w3" "snd w3"] c3 by (cases w3) auto
      with sync_cases [of t s "?n\<lparr>i_mode := m, i_data := c, i_synced := False\<rparr>" fs3 r s' fs'] r3 m
      show ?thesis by (auto simp: secret_ok_def tmp_ok_def)
    qed
  qed
qed

text \<open>What a reader, or a power loss, sees at each of the three kinds of disk.\<close>

definition renamed :: "disk \<Rightarrow> string \<Rightarrow> string \<Rightarrow> inode \<Rightarrow> disk" where
  "renamed s t p n = d_rename t p (with_tmp s t n)"

definition removed_tmp :: "disk \<Rightarrow> string \<Rightarrow> inode \<Rightarrow> disk" where
  "removed_tmp s t n = d_remove t (with_tmp s t n)"

text \<open>\<open>guarded\<close>: the target holds the old or the complete new content whatever happens next.\<close>

definition guarded :: "bool \<Rightarrow> string \<Rightarrow> string \<Rightarrow> string \<Rightarrow> disk \<Rightarrow> disk \<Rightarrow> bool" where
  "guarded secret p t c s s' \<longleftrightarrow> (\<forall>x. survives s' p x \<longrightarrow> x = content s p \<or> x = Some c) \<and>
     (\<forall>q. q \<noteq> p \<and> q \<noteq> t \<longrightarrow> content s' q = content s q) \<and>
     (\<forall>d. secret \<and> content s' t = Some d \<and> d \<noteq> [] \<longrightarrow> mode_of s' t = Some owner_only)"

definition new_there :: "bool \<Rightarrow> string \<Rightarrow> string \<Rightarrow> disk \<Rightarrow> bool" where
  "new_there secret p c s \<longleftrightarrow> content s p = Some c \<and> (secret \<longrightarrow> mode_of s p = Some owner_only)"

lemma survives_old: "disk_ok p t s \<Longrightarrow> survives s p x \<Longrightarrow> x = content s p"
  by (auto simp: disk_ok_def survives_def content_def split: option.splits)

lemma guarded_same: "disk_ok p t s \<Longrightarrow> guarded secret p t c s s"
  using survives_old by (auto simp: guarded_def disk_ok_def content_def)

lemma fresh_ino: "disk_ok p t s \<Longrightarrow> dirv s q = Some i \<Longrightarrow> i \<noteq> next_ino s"
  by (auto simp: disk_ok_def)

lemma with_tmp_other:
  assumes "disk_ok p t s" and "q \<noteq> t"
  shows "content (with_tmp s t n) q = content s q" and "mode_of (with_tmp s t n) q = mode_of s q"
  using assms fresh_ino [OF assms(1), of q]
  by (cases "dirv s q"; simp add: content_def mode_of_def with_tmp_def)+

lemma with_tmp_tmp: "content (with_tmp s t n) t = Some (i_data n)" "mode_of (with_tmp s t n) t = Some (i_mode n)"
  by (simp_all add: content_def mode_of_def with_tmp_def)

lemma with_tmp_survives:
  assumes "disk_ok p t s" and "p \<noteq> t" and "survives (with_tmp s t n) p x"
  shows "x = content s p"
  using assms fresh_ino [OF assms(1), of p]
  by (cases "dirv s p") (auto simp: survives_def with_tmp_def disk_ok_def content_def)

lemma guarded_with_tmp:
  "disk_ok p t s \<Longrightarrow> t \<noteq> p \<Longrightarrow> secret_ok secret n \<Longrightarrow> guarded secret p t c s (with_tmp s t n)"
  using with_tmp_survives [of p t s n] with_tmp_other [of p t s _ n]
  by (auto simp: guarded_def with_tmp_tmp secret_ok_def)

lemma removed_view:
  "content (d_remove t s) q = (if q = t then None else content s q)"
  "mode_of (d_remove t s) q = (if q = t then None else mode_of s q)"
  by (simp_all add: content_def mode_of_def d_remove_def cong: option.case_cong)

lemma removed_survives: "p \<noteq> t \<Longrightarrow> survives (d_remove t s) p x = survives s p x"
  by (simp add: survives_def d_remove_def cong: option.case_cong)

lemma guarded_remove: "t \<noteq> p \<Longrightarrow> guarded secret p t c s s' \<Longrightarrow> guarded secret p t c s (d_remove t s')"
  by (simp add: guarded_def removed_view removed_survives)

lemma renamed_view:
  assumes "t \<noteq> p"
  shows "content (d_rename t p s) q = (if q = t then None else if q = p then content s t else content s q)"
    and "mode_of (d_rename t p s) q = (if q = t then None else if q = p then mode_of s t else mode_of s q)"
  using assms by (simp_all add: content_def mode_of_def d_rename_def cong: option.case_cong)

lemma renamed_survives:
  assumes "disk_ok p t s" and "t \<noteq> p" and "i_data n = c" and "i_synced n"
    and "survives (d_rename t p (with_tmp s t n)) p x"
  shows "x = content s p \<or> x = Some c"
  using assms fresh_ino [OF assms(1), of p]
  by (cases "dirv s p") (auto simp: survives_def with_tmp_def d_rename_def disk_ok_def content_def)

lemma guarded_renamed:
  assumes "disk_ok p t s" and "t \<noteq> p" and "tmp_ok secret c n"
  shows "guarded secret p t c s (d_rename t p (with_tmp s t n)) \<and> new_there secret p c (d_rename t p (with_tmp s t n))"
  using renamed_survives [OF assms(1,2)] with_tmp_other [OF assms(1)] assms
  by (auto simp: guarded_def new_there_def renamed_view with_tmp_tmp tmp_ok_def)

lemma syncdir_view: "content (d_syncdir s) q = content s q" "mode_of (d_syncdir s) q = mode_of s q"
  by (simp_all add: content_def mode_of_def d_syncdir_def cong: option.case_cong)

lemma syncdir_survives: "survives (d_syncdir s) p x \<Longrightarrow> survives s p x"
  by (auto simp: survives_def d_syncdir_def cong: option.case_cong)

lemma guarded_syncdir:
  "guarded secret p t c s s' \<and> new_there secret p c s' \<Longrightarrow>
   guarded secret p t c s (d_syncdir s') \<and> new_there secret p c (d_syncdir s')"
  using syncdir_survives by (auto simp: guarded_def new_there_def syncdir_view)

lemma atomic_cases:
  assumes "call (atomic g) (s, fs) = (r, (s', fs'))"
  shows "s' = g s \<or> s' = s \<and> r \<noteq> Ret True"
  using assms by (rule call_cases) (auto simp: atomic_def)

lemma atomic_ret:
  "call (atomic g) (s, fs) = (Ret True, (s', fs')) \<Longrightarrow> s' = g s"
  "call (atomic g) (s, fs) = (Ret False, (s', fs')) \<Longrightarrow> s' = s"
  by (erule call_cases; simp add: atomic_def)+

lemma commit_cases:
  assumes ok: "disk_ok p t s" and tp: "t \<noteq> p"
    and run: "seq (stage_tmp secret p t c) (call (atomic (d_rename t p))) (s, fs) = (r, (s', fs'))"
  shows "guarded secret p t c s s' \<and> (r = Ret True \<longrightarrow> new_there secret p c s') \<and>
    (r = Ret False \<longrightarrow> content s' p = content s p)"
  using run
proof (rule seq_cases)
  assume st: "stage_tmp secret p t c (s, fs) = (r, (s', fs'))" and r: "r \<noteq> Ret True"
  have "dirv s t = None" using ok by (simp add: disk_ok_def)
  from stage_tmp_cases [OF st this] r guarded_same [OF ok] guarded_with_tmp [OF ok tp] with_tmp_other [OF ok] tp
  show ?thesis by auto
next
  fix w1
  assume st: "stage_tmp secret p t c (s, fs) = (Ret True, w1)" and rn: "call (atomic (d_rename t p)) w1 = (r, (s', fs'))"
  obtain s1 fs1 where w1: "w1 = (s1, fs1)" by (cases w1)
  have "dirv s t = None" using ok by (simp add: disk_ok_def)
  from stage_tmp_cases [OF st [unfolded w1] this] obtain n where n: "s1 = with_tmp s t n" "secret_ok secret n" "tmp_ok secret c n"
    by auto
  from rn [unfolded w1] show ?thesis
    using atomic_cases [of "d_rename t p" s1 fs1 r s' fs'] atomic_ret(1) [of "d_rename t p" s1 fs1 s' fs'] n
      guarded_renamed [OF ok tp n(3)] guarded_with_tmp [OF ok tp n(2)] with_tmp_other [OF ok] tp
      atomic_ret(2) [of "d_rename t p" s1 fs1 s' fs']
    by auto
qed

lemma write_durable_guarded:
  assumes ok: "disk_ok p (tmp_name pid sq p) s"
    and run: "write_durable_impl pid sq secret p c (s, fs) = (r, (s', fs'))"
  shows "guarded secret p (tmp_name pid sq p) c s s' \<and> (r = Ret True \<longrightarrow> new_there secret p c s') \<and>
    (r = Ret False \<longrightarrow> content s' p = content s p)"
proof -
  let ?t = "tmp_name pid sq p"
  have tp: "?t \<noteq> p" by simp
  from run [unfolded write_durable_impl_def Let_def] show ?thesis
  proof (rule seq_cases)
    assume c: "call (atomic id) (s, fs) = (r, (s', fs'))"
    then have "s' = s" by (rule call_cases) (auto simp: atomic_def)
    moreover assume "r \<noteq> Ret True"
    ultimately show ?thesis using guarded_same [OF ok] by simp
  next
    fix w0 assume "call (atomic id) (s, fs) = (Ret True, w0)"
      and run: "(case seq (stage_tmp secret p ?t c) (call (atomic (d_rename ?t p))) w0 of
               (Crashed, w) \<Rightarrow> (Crashed, w)
             | (Ret False, w) \<Rightarrow>
                 (case call (atomic (d_remove ?t)) w of (Crashed, w) \<Rightarrow> (Crashed, w) | (Ret _, w) \<Rightarrow> (Ret False, w))
             | (Ret True, w) \<Rightarrow>
                 (case call (atomic d_syncdir) w of (Crashed, w) \<Rightarrow> (Crashed, w) | (Ret _, w) \<Rightarrow> (Ret True, w)))
           = (r, (s', fs'))"
    then obtain fs0 where w0: "w0 = (s, fs0)" using atomic_ret(1) [of id s fs] by (cases w0) auto
    obtain r1 s1 fs1 where S: "seq (stage_tmp secret p ?t c) (call (atomic (d_rename ?t p))) (s, fs0) = (r1, (s1, fs1))"
      by (metis prod.exhaust)
    note g1 = commit_cases [OF ok tp S]
    obtain r2 s2 fs2 where R: "call (atomic (d_remove ?t)) (s1, fs1) = (r2, (s2, fs2))" by (metis prod.exhaust)
    obtain r3 s3 fs3 where Y: "call (atomic d_syncdir) (s1, fs1) = (r3, (s3, fs3))" by (metis prod.exhaust)
    have s2: "s2 = d_remove ?t s1 \<or> s2 = s1" and s3: "s3 = d_syncdir s1 \<or> s3 = s1"
      using atomic_cases [OF R] atomic_cases [OF Y] by auto
    consider "r1 = Crashed" | "r1 = Ret False" | "r1 = Ret True" by (cases r1) auto
    then show ?thesis
    proof cases
      case 1
      with run w0 S have "r = Crashed" "s' = s1" by auto
      with g1 show ?thesis by simp
    next
      case 2
      with run w0 S R have "s' = s2" "r \<noteq> Ret True"
        by (auto split: ran.splits)
      moreover have "guarded secret p ?t c s s2 \<and> content s2 p = content s p"
        using s2 g1 2 guarded_remove [OF tp, of secret c s s1] by (auto simp: removed_view)
      ultimately show ?thesis by simp
    next
      case 3
      with run w0 S Y have "s' = s3" "r \<noteq> Ret False"
        by (auto split: ran.splits)
      moreover have "guarded secret p ?t c s s3 \<and> new_there secret p c s3"
        using s3 g1 3 guarded_syncdir [of secret p ?t c s s1] by auto
      ultimately show ?thesis by simp
    qed
  qed
qed

text \<open>
 C31: The durable write is crash-safe. Whatever calls fail and wherever the power is lost: the target holds
  its old content or the complete new content, on the running system and after a power loss; success
  means the new content is there (with owner-only permissions for a secret), failure means the old
  one; no other file changes; and the data of a secret is never in a file that others could read, the
  temporary one included.
\<close>

theorem write_durable_crash_safe:
  assumes "disk_ok p (tmp_name pid sq p) s"
    and "write_durable_impl pid sq secret p c (s, fs) = (r, (s', fs'))"
  shows "(\<forall>x. survives s' p x \<longrightarrow> x = content s p \<or> x = Some c) \<and>
    (r = Ret True \<longrightarrow> content s' p = Some c \<and> (secret \<longrightarrow> mode_of s' p = Some owner_only)) \<and>
    (r = Ret False \<longrightarrow> content s' p = content s p) \<and>
    (\<forall>q. q \<noteq> p \<and> q \<noteq> tmp_name pid sq p \<longrightarrow> content s' q = content s q) \<and>
    (\<forall>d. secret \<and> content s' (tmp_name pid sq p) = Some d \<and> d \<noteq> [] \<longrightarrow>
       mode_of s' (tmp_name pid sq p) = Some owner_only)"
  using write_durable_guarded [OF assms] by (simp add: guarded_def new_there_def)

definition demo_disk :: disk where
  "demo_disk = \<lparr>inodes = [0 \<mapsto> \<lparr>i_data = ''old'', i_mode = 420, i_synced = True\<rparr>], dirv = [''k'' \<mapsto> 0],
     dird = [''k'' \<mapsto> 0], next_ino = 1, new_mode = 420\<rparr>"

lemma write_durable_crash_safe_witness:
  "\<exists>s' fs'. write_durable_secret 7 0 ''k'' ''new'' (demo_disk, [F_ok, F_ok, F_ok, F_crash 2]) = (Crashed, (s', fs')) \<and>
     (\<forall>x. survives s' ''k'' x \<longrightarrow> x = Some ''old'' \<or> x = Some ''new'') \<and>
     content s' (tmp_name 7 0 ''k'') = Some ''ne'' \<and> mode_of s' (tmp_name 7 0 ''k'') = Some owner_only"
proof -
  let ?t = "tmp_name 7 0 ''k''"
  have ok: "disk_ok ''k'' ?t demo_disk" by (auto simp: disk_ok_def demo_disk_def)
  have t: "?t \<noteq> ''k''" by simp
  obtain s' fs' where run: "write_durable_impl 7 0 True ''k'' ''new'' (demo_disk, [F_ok, F_ok, F_ok, F_crash 2])
      = (Crashed, (s', fs'))" and tmp: "content s' ?t = Some ''ne''"
    using t by (simp add: write_durable_impl_def Let_def seq_def stage_tmp_def set_mode_def atomic_def d_create_def
        d_chmod_def d_write_def upd_def demo_disk_def content_def)
  have "content demo_disk ''k'' = Some ''old''" by (simp add: demo_disk_def content_def)
  with write_durable_crash_safe [OF ok run] run tmp show ?thesis by (simp add: write_durable_secret_def)
qed

text \<open>The user's and root's view of the shared directory agree wherever the system directory exists.\<close>

lemma shared_dir_agrees:
  "e_sys_dir e \<Longrightarrow> shared_state_dir (e\<lparr>e_root := r\<rparr>) = shared_state_dir e"
  by (simp add: shared_state_dir_def split: option.split)

end
