(* ===== verification/Settings.thy ===== *)
theory Settings
  imports Paths
begin

text \<open>
  Files edited by read, change and write: the locked edit of a settings file (\<open>edit_toml_secret\<close> of
  src/src/paths.rs), the node settings (src/src/settings.rs) and the benchmark history
  (src/src/history.rs). The world is the live view of the files; a write replaces a whole file or fails
  and changes nothing, which is what \<open>write_durable_crash_safe\<close> of the theory \<open>Paths\<close> gives. The edits run
  under their lock. Parsing and rendering (toml, serde_json) are parameters.
\<close>

section \<open>Files\<close>

datatype fcontent = Text string | Not_utf8

record files =
  f_map :: "(string, fcontent) btree"
  f_faults :: "bool list"

definition files_ok :: "files \<Rightarrow> bool" where
  "files_ok w \<longleftrightarrow> bt_wf (f_map w)"

text \<open>\<open>read_to_string\<close>: an error for a missing file and for bytes that are not UTF-8.\<close>

definition read_text :: "files \<Rightarrow> string \<Rightarrow> string option" where
  "read_text w p = (case bt_get (f_map w) p of Some (Text s) \<Rightarrow> Some s | _ \<Rightarrow> None)"

definition file_call :: "(files \<Rightarrow> files) \<Rightarrow> (string, files) step" where
  "file_call f w =
     (case f_faults w of
        [] \<Rightarrow> (Inr (), f w)
      | b # bs \<Rightarrow> if b then (Inl ''io'', w\<lparr>f_faults := bs\<rparr>) else (Inr (), f (w\<lparr>f_faults := bs\<rparr>)))"

definition put_text :: "string \<Rightarrow> string \<Rightarrow> (string, files) step" where
  "put_text p s = file_call (\<lambda>w. w\<lparr>f_map := bt_insert p (Text s) (f_map w)\<rparr>)"

definition move_file :: "string \<Rightarrow> string \<Rightarrow> (string, files) step" where
  "move_file p q = file_call (\<lambda>w. case bt_get (f_map w) p of
      None \<Rightarrow> w
    | Some c \<Rightarrow> w\<lparr>f_map := bt_insert q c (bt_remove p (f_map w))\<rparr>)"

definition with_extension :: "string \<Rightarrow> string \<Rightarrow> string" where
  "with_extension p e =
     (case file_name p of
        None \<Rightarrow> p
      | Some n \<Rightarrow>
          with_file_name p ((case rsplit_once CHR ''.'' n of
              None \<Rightarrow> n
            | Some (stem, _) \<Rightarrow> if stem = [] then n else stem) @ ''.'' @ e))"

section \<open>The edit\<close>

definition save_toml :: "('v \<Rightarrow> string option) \<Rightarrow> string \<Rightarrow> string \<Rightarrow> 'v \<Rightarrow> (string, files) step" where
  "save_toml render header p v w =
     (case render v of None \<Rightarrow> (Inl ''serializing'', w) | Some t \<Rightarrow> put_text p (header @ t) w)"

definition edit_toml_secret :: "(string \<Rightarrow> 'v option) \<Rightarrow> ('v \<Rightarrow> string option) \<Rightarrow> 'v \<Rightarrow> nat \<Rightarrow> string \<Rightarrow> string
    \<Rightarrow> ('v \<Rightarrow> 'v) \<Rightarrow> (string, files) step" where
  "edit_toml_secret parse render dflt stamp header p edit w =
     (case read_text w p of
        None \<Rightarrow> save_toml render header p (edit dflt) w
      | Some s \<Rightarrow>
          (case parse s of
             Some v \<Rightarrow> save_toml render header p (edit v) w
           | None \<Rightarrow>
               and_then (move_file p (with_extension p (''bad.'' @ show_nat stamp)))
                 (save_toml render header p (edit dflt)) w))"

section \<open>Settings\<close>

record 'a settings =
  s_bind_host :: "string option"
  s_api_key :: "string option"
  s_served_model :: "string option"
  s_alerts :: "'a option"

definition default_settings :: "'a settings" where
  "default_settings = \<lparr>s_bind_host = None, s_api_key = None, s_served_model = None, s_alerts = None\<rparr>"

definition local_host :: string where "local_host = ''127.0.0.1''"
definition exposed_host :: string where "exposed_host = ''0.0.0.0''"

definition settings_header :: string where
  "settings_header = ''# llmtune node-local settings'' @ [CHR 0x0A, CHR 0x0A]"

definition load_settings :: "(string \<Rightarrow> 'a settings option) \<Rightarrow> string option \<Rightarrow> files \<Rightarrow> 'a settings" where
  "load_settings parse p w =
     (case p of
        None \<Rightarrow> default_settings
      | Some f \<Rightarrow>
          (case read_text w f of
             None \<Rightarrow> default_settings
           | Some s \<Rightarrow> (case parse s of None \<Rightarrow> default_settings | Some v \<Rightarrow> v)))"

definition bind_host :: "'a settings \<Rightarrow> string" where
  "bind_host v = (case s_bind_host v of None \<Rightarrow> local_host | Some h \<Rightarrow> h)"

definition exposed :: "'a settings \<Rightarrow> bool" where
  "exposed v \<longleftrightarrow> bind_host v = exposed_host"

definition api_key :: "'a settings \<Rightarrow> string option" where
  "api_key v = nonempty_str (s_api_key v)"

definition served_model :: "'a settings \<Rightarrow> string option" where
  "served_model v = nonempty_str (s_served_model v)"

datatype setting = Set_exposed bool | Set_api_key "string option" | Set_served_model string

fun apply_setting :: "setting \<Rightarrow> 'a settings \<Rightarrow> 'a settings" where
  "apply_setting (Set_exposed on) v = v\<lparr>s_bind_host := Some (if on then exposed_host else local_host)\<rparr>"
| "apply_setting (Set_api_key k) v = v\<lparr>s_api_key := nonempty_str k\<rparr>"
| "apply_setting (Set_served_model m) v = v\<lparr>s_served_model := Some m\<rparr>"

text \<open>The served model is remembered on a best-effort basis: its errors are dropped.\<close>

definition change_setting :: "(string \<Rightarrow> 'a settings option) \<Rightarrow> ('a settings \<Rightarrow> string option) \<Rightarrow> nat
    \<Rightarrow> string option \<Rightarrow> setting \<Rightarrow> (string, files) step" where
  "change_setting parse render stamp p c w =
     (case p of
        None \<Rightarrow> ((case c of Set_served_model _ \<Rightarrow> Inr () | _ \<Rightarrow> Inl ''no HOME for settings path''), w)
      | Some f \<Rightarrow>
          (case edit_toml_secret parse render default_settings stamp settings_header f (apply_setting c) w of
             (r, w) \<Rightarrow> ((case c of Set_served_model _ \<Rightarrow> Inr () | _ \<Rightarrow> r), w)))"

section \<open>History\<close>

definition max_records :: nat where
  "max_records = 1000"

definition load_history :: "(string \<Rightarrow> 'r list option) \<Rightarrow> string \<Rightarrow> files \<Rightarrow> 'r list" where
  "load_history parse p w =
     (case read_text w p of None \<Rightarrow> [] | Some s \<Rightarrow> (case parse s of None \<Rightarrow> [] | Some v \<Rightarrow> v))"

definition file_is_corrupt :: "(string \<Rightarrow> 'r list option) \<Rightarrow> string \<Rightarrow> files \<Rightarrow> bool" where
  "file_is_corrupt parse p w = (case read_text w p of None \<Rightarrow> False | Some s \<Rightarrow> parse s = None)"

definition append_record :: "(string \<Rightarrow> 'r list option) \<Rightarrow> ('r list \<Rightarrow> string option) \<Rightarrow> string \<Rightarrow> nat \<Rightarrow> 'r
    \<Rightarrow> (string, files) step" where
  "append_record parse render p ts r w =
     (let w = (if file_is_corrupt parse p w
               then snd (move_file p (with_extension p (''json.corrupt.'' @ show_nat ts)) w) else w)
      in save_toml render [] p (take max_records (r # load_history parse p w)) w)"

section \<open>Facts about the files\<close>

lemma file_call_cases:
  assumes "file_call f w = (r, w')"
  obtains fs where "r = Inr ()" "w' = f (w\<lparr>f_faults := fs\<rparr>)" | e fs where "r = Inl e" "w' = w\<lparr>f_faults := fs\<rparr>"
proof (cases "f_faults w")
  case Nil
  then have "w\<lparr>f_faults := []\<rparr> = w" by (cases w) simp
  with Nil assms that(1) [of "[]"] show ?thesis by (simp add: file_call_def)
next
  case (Cons b bs)
  with assms that show ?thesis by (cases b) (auto simp: file_call_def)
qed

lemma put_text_effect:
  assumes "put_text p s w = (r, w')"
  shows "(if r = Inr () then f_map w' = bt_insert p (Text s) (f_map w) else f_map w' = f_map w)"
  using assms unfolding put_text_def by (rule file_call_cases) simp_all

lemma move_file_effect:
  assumes "move_file p q w = (r, w')" and "bt_get (f_map w) p = Some c"
  shows "(if r = Inr () then f_map w' = bt_insert q c (bt_remove p (f_map w)) else f_map w' = f_map w)"
  using assms(1) unfolding move_file_def by (rule file_call_cases) (simp_all add: assms(2))

lemma save_toml_effect:
  assumes "save_toml render h p v w = (r, w')"
  shows "(if r = Inr () then \<exists>t. render v = Some t \<and> f_map w' = bt_insert p (Text (h @ t)) (f_map w)
     else f_map w' = f_map w)"
  using assms put_text_effect by (auto simp: save_toml_def split: option.splits)

lemma read_text_get: "read_text w p = Some s \<longleftrightarrow> bt_get (f_map w) p = Some (Text s)"
  by (auto simp: read_text_def split: option.splits fcontent.splits)

text \<open>What is stored under a path, as the program reads it back.\<close>

definition stored :: "(string \<Rightarrow> 'v option) \<Rightarrow> 'v \<Rightarrow> string \<Rightarrow> files \<Rightarrow> 'v" where
  "stored parse dflt p w = (case read_text w p of None \<Rightarrow> dflt | Some s \<Rightarrow> (case parse s of None \<Rightarrow> dflt | Some v \<Rightarrow> v))"

text \<open>Rendering and parsing are inverse, the documented behaviour of the serialisers.\<close>

definition round_trips :: "(string \<Rightarrow> 'v option) \<Rightarrow> ('v \<Rightarrow> string option) \<Rightarrow> string \<Rightarrow> bool" where
  "round_trips parse render h \<longleftrightarrow> (\<forall>v t. render v = Some t \<longrightarrow> parse (h @ t) = Some v)"

lemma save_toml_stored:
  assumes "round_trips parse render h" and "files_ok w" and "save_toml render h p v w = (Inr (), w')"
  shows "stored parse d p w' = v \<and> (\<forall>q. q \<noteq> p \<longrightarrow> bt_get (f_map w') q = bt_get (f_map w) q)"
proof -
  from save_toml_effect [OF assms(3)] obtain t where t: "render v = Some t"
    and m: "f_map w' = bt_insert p (Text (h @ t)) (f_map w)" by auto
  have "parse (h @ t) = Some v" using assms(1) t by (simp add: round_trips_def)
  with m assms(2) show ?thesis by (simp add: stored_def read_text_def files_ok_def bt_simps)
qed

lemma edit_effect:
  assumes rt: "round_trips parse render h" and ok: "files_ok w"
    and run: "edit_toml_secret parse render d stamp h p f w = (r, w')"
  shows "(if r = Inr () then stored parse d p w' = f (stored parse d p w)
      else read_text w p = None \<or> parse (the (read_text w p)) \<noteq> None \<longrightarrow> f_map w' = f_map w) \<and>
    (\<forall>s. read_text w p = Some s \<longrightarrow> parse s = None \<longrightarrow>
       (\<exists>q. q \<in> {p, with_extension p (''bad.'' @ show_nat stamp)} \<and> bt_get (f_map w') q = Some (Text s)) \<or>
       with_extension p (''bad.'' @ show_nat stamp) = p)"
proof (cases "\<exists>s. read_text w p = Some s \<and> parse s = None")
  case False
  then have "save_toml render h p (f (stored parse d p w)) w = (r, w')"
    using run by (auto simp: edit_toml_secret_def stored_def split: option.splits)
  with save_toml_stored [OF rt ok, of p "f (stored parse d p w)" w'] save_toml_effect [of render h p _ w r w'] False
  show ?thesis by (cases "r = Inr ()") auto
next
  case True
  then obtain s where s: "read_text w p = Some s" "parse s = None" by blast
  let ?q = "with_extension p (''bad.'' @ show_nat stamp)"
  have g: "bt_get (f_map w) p = Some (Text s)" using s(1) by (simp add: read_text_get)
  have st: "stored parse d p w = d" using s by (simp add: stored_def)
  obtain r1 w1 where 1: "move_file p ?q w = (r1, w1)" by (rule prod.exhaust)
  from run s 1 have run': "(case r1 of Inl e \<Rightarrow> (Inl e, w1) | Inr _ \<Rightarrow> save_toml render h p (f d) w1) = (r, w')"
    by (auto simp: edit_toml_secret_def and_then_def split: sum.splits)
  note mv = move_file_effect [OF 1 g]
  show ?thesis
  proof (cases r1)
    case (Inl e)
    with run' mv g s show ?thesis by auto
  next
    case (Inr x)
    then have sv: "save_toml render h p (f d) w1 = (r, w')" and m1: "f_map w1 = bt_insert ?q (Text s) (bt_remove p (f_map w))"
      using run' mv by auto
    have ok1: "files_ok w1" using ok m1 by (simp add: files_ok_def bt.wf_ins bt.wf_rem)
    have g1: "bt_get (f_map w1) ?q = Some (Text s)"
      using ok m1 by (simp add: files_ok_def bt_simps)
    have "bt_get (f_map w') ?q = Some (Text s) \<or> ?q = p"
      using g1 save_toml_effect [OF sv] ok1 by (cases "r = Inr ()") (auto simp: bt_simps files_ok_def)
    with save_toml_stored [OF rt ok1, of p "f d" w'] sv st s show ?thesis by auto
  qed
qed

section \<open>Properties\<close>

lemma load_settings_stored: "load_settings parse (Some f) w = stored parse default_settings f w"
  by (simp add: load_settings_def stored_def split: option.split)


definition demo_settings :: "unit settings" where
  "demo_settings = apply_setting (Set_exposed True) default_settings"

definition demo_render :: "unit settings \<Rightarrow> string option" where
  "demo_render v = (if v = demo_settings then Some ''bind_host'' else None)"

definition demo_parse :: "string \<Rightarrow> unit settings option" where
  "demo_parse s = (if s = settings_header @ ''bind_host'' then Some demo_settings else None)"




section \<open>Gaps\<close>

text \<open>
  A settings file whose bytes are not UTF-8 counts as missing: the next change of any setting overwrites it
  with the defaults, without an aside, and the api key is gone.
\<close>

lemma non_utf8_settings_overwritten:
  assumes "round_trips parse render settings_header" and "files_ok w" and "f_faults w = []"
    and "bt_get (f_map w) f = Some Not_utf8"
    and "render (apply_setting (Set_exposed on) default_settings) = Some t"
  shows "change_setting parse render stamp (Some f) (Set_exposed on) w =
      (Inr (), w\<lparr>f_map := bt_insert f (Text (settings_header @ t)) (f_map w)\<rparr>) \<and>
    api_key (load_settings parse (Some f) (w\<lparr>f_map := bt_insert f (Text (settings_header @ t)) (f_map w)\<rparr>)) = None"
proof -
  have "parse (settings_header @ t) = Some (apply_setting (Set_exposed on) default_settings)"
    using assms(1,5) by (simp add: round_trips_def)
  then show ?thesis
    using assms by (simp add: change_setting_def edit_toml_secret_def read_text_def save_toml_def put_text_def
        file_call_def load_settings_def files_ok_def bt_simps api_key_def default_settings_def nonempty_str_def)
qed

text \<open>
  The history drops the result of moving an unreadable file aside: when that fails and the write after it
  succeeds, the old file is overwritten.
\<close>

lemma history_aside_failure_overwrites:
  assumes "f_faults w = [True, False]" and "read_text w p = Some s" and "parse s = None"
    and "render (take max_records [rec]) = Some t"
  shows "f_map (snd (append_record parse render p ts rec w)) = bt_insert p (Text t) (f_map w)"
  using assms by (simp add: append_record_def file_is_corrupt_def move_file_def file_call_def load_history_def
      read_text_def save_toml_def put_text_def split: option.splits fcontent.splits)

end
