(* ===== verification/Library.thy ===== *)
theory Library
  imports Model Transport
begin

text \<open>
  The model library of the control host (src/src/library.rs and the add and rm commands of
  src/src/cmds/models.rs). The library directory is an ordered map from names to contents, exported to
  the nodes: whatever state it passes through is visible to them, so the model records every state in
  \<open>l_seen\<close>. Every system call may fail (\<open>l_faults\<close>), a write after any number of bytes.
  The download (ureq) is a parameter: the answer, its length header and its chunks.
\<close>

section \<open>The directory and its system calls\<close>

type_synonym ldir = "(string, bytes) btree"

record lib =
  l_files :: ldir
  l_faults :: "nat option list"
  l_seen :: "ldir list"

datatype lib_error =
    No_name string
  | Not_gguf_name string
  | Bad_name string
  | Not_a_file
  | Already_exists string
  | Bad_gguf string
  | Get_failed
  | Advertised_too_large nat
  | Too_large
  | Read_failed
  | Io_failed
  | Blank_query
  | No_match string
  | Ambiguous "string list"

text \<open>One system call: with a fault it reports an error after the part of its effect the fault allows.\<close>

definition lib_do :: "(nat option \<Rightarrow> ldir \<Rightarrow> ldir) \<Rightarrow> (lib_error, lib) step" where
  "lib_do f w =
     (let x = (case l_faults w of [] \<Rightarrow> None | y # _ \<Rightarrow> y);
          d = f x (l_files w)
      in (if x = None then Inr () else Inl Io_failed,
          w\<lparr>l_files := d, l_faults := tl (l_faults w), l_seen := d # l_seen w\<rparr>))"

definition touch_dir :: "nat option \<Rightarrow> ldir \<Rightarrow> ldir" where
  "touch_dir x d = d"

definition make_file :: "string \<Rightarrow> nat option \<Rightarrow> ldir \<Rightarrow> ldir" where
  "make_file n x d = (if x = None then bt_insert n [] d else d)"

definition append_bytes :: "string \<Rightarrow> bytes \<Rightarrow> nat option \<Rightarrow> ldir \<Rightarrow> ldir" where
  "append_bytes n bs x d =
     (case bt_get d n of
        None \<Rightarrow> d
      | Some old \<Rightarrow> bt_insert n (old @ (case x of None \<Rightarrow> bs | Some k \<Rightarrow> take k bs)) d)"

definition rename_to :: "string \<Rightarrow> string \<Rightarrow> nat option \<Rightarrow> ldir \<Rightarrow> ldir" where
  "rename_to n n' x d =
     (case bt_get d n of
        None \<Rightarrow> d
      | Some bs \<Rightarrow> if x = None then bt_insert n' bs (bt_remove n d) else d)"

definition delete_file :: "string \<Rightarrow> nat option \<Rightarrow> ldir \<Rightarrow> ldir" where
  "delete_file n x d = (if x = None then bt_remove n d else d)"

section \<open>Names\<close>

definition is_url :: "string \<Rightarrow> bool" where
  "is_url s \<longleftrightarrow> starts_with s ''http://'' \<or> starts_with s ''https://''"

definition special_char :: "char \<Rightarrow> bool" where
  "special_char c \<longleftrightarrow> is_control c \<or> c \<in> set [CHR ''/'', CHR 0x5C, CHR 0x27, CHR 0x22, CHR 0x60, CHR ''$'']"

definition base_of :: "string \<Rightarrow> string" where
  "base_of s =
     (if is_url s then last (split_on sep (hd (splits (\<lambda>c. c = CHR ''?'' \<or> c = CHR ''#'') s)))
      else case file_name s of None \<Rightarrow> [] | Some n \<Rightarrow> n)"

definition dest_name :: "string \<Rightarrow> lib_error + string" where
  "dest_name s =
     (let b = base_of s in
      if b = [] then Inl (No_name s)
      else if \<not> ends_with (lower b) ''.gguf'' then Inl (Not_gguf_name b)
      else if starts_with b ''.'' \<or> starts_with b ''-'' then Inl (Bad_name b)
      else if list_ex special_char b then Inl (Bad_name b)
      else Inr b)"

definition normalize_download_url :: "string \<Rightarrow> string" where
  "normalize_download_url u =
     (if starts_with u ''https://huggingface.co/'' \<or> starts_with u ''http://huggingface.co/''
      then case find_str u ''/blob/'' of
             Some k \<Rightarrow> take k u @ ''/resolve/'' @ drop (k + length ''/blob/'') u
           | None \<Rightarrow> u
      else u)"

definition temp_name :: "nat \<Rightarrow> string \<Rightarrow> string" where
  "temp_name pid n = ''.llmtune-add-'' @ n @ ''.'' @ show_nat pid @ ''.part''"

section \<open>Adding a model\<close>

record add_outcome =
  ad_name :: string
  ad_path :: string
  ad_size :: nat

definition is_gguf :: "string \<Rightarrow> lib \<Rightarrow> bool \<times> lib" where
  "is_gguf n w =
     (case lib_do touch_dir w of
        (Inl _, w) \<Rightarrow> (False, w)
      | (Inr _, w) \<Rightarrow> (case bt_get (l_files w) n of None \<Rightarrow> False | Some bs \<Rightarrow> take 4 bs = magic, w))"

text \<open>The staging file is removed on every path that does not commit.\<close>

definition temp_guard :: "string \<Rightarrow> (lib \<Rightarrow> (lib_error + 'a) \<times> lib) \<Rightarrow> lib \<Rightarrow> (lib_error + 'a) \<times> lib" where
  "temp_guard tmp f w =
     (case f w of
        (Inl e, w) \<Rightarrow> (Inl e, snd (lib_do (delete_file tmp) w))
      | (Inr a, w) \<Rightarrow> (Inr a, w))"

definition lib_bind :: "(lib \<Rightarrow> (lib_error + 'a) \<times> lib) \<Rightarrow> ('a \<Rightarrow> lib \<Rightarrow> (lib_error + 'b) \<times> lib)
    \<Rightarrow> lib \<Rightarrow> (lib_error + 'b) \<times> lib" where
  "lib_bind f g w = (case f w of (Inl e, w) \<Rightarrow> (Inl e, w) | (Inr a, w) \<Rightarrow> g a w)"

definition commit_add :: "string \<Rightarrow> string \<Rightarrow> string \<Rightarrow> lib \<Rightarrow> (lib_error + add_outcome) \<times> lib" where
  "commit_add dir tmp n w =
     (case is_gguf tmp w of
        (False, w) \<Rightarrow> (Inl (Bad_gguf n), w)
      | (True, w) \<Rightarrow>
          lib_bind (lib_do touch_dir) (\<lambda>_ w.
            let sz = (case bt_get (l_files w) tmp of None \<Rightarrow> 0 | Some bs \<Rightarrow> length bs) in
            lib_bind (lib_do (rename_to tmp n)) (\<lambda>_ w.
              (Inr \<lparr>ad_name = n, ad_path = path_join dir n, ad_size = sz\<rparr>, w)) w) w)"

definition stage_add :: "string \<Rightarrow> lib \<Rightarrow> (lib_error + unit) \<times> lib" where
  "stage_add n =
     lib_bind (lib_do touch_dir) (\<lambda>_ w. (guard_err (bt_get (l_files w) n = None) (Already_exists n), w))"

text \<open>\<open>fs::copy\<close>: create the target, then write the source piece by piece.\<close>

fun write_chunks :: "string \<Rightarrow> bytes list \<Rightarrow> (lib_error, lib) step" where
  "write_chunks tmp [] w = (Inr (), w)"
| "write_chunks tmp (c # cs) w = and_then (lib_do (append_bytes tmp c)) (write_chunks tmp cs) w"

definition add_local :: "string \<Rightarrow> nat \<Rightarrow> bytes list option \<Rightarrow> string \<Rightarrow> lib \<Rightarrow> (lib_error + add_outcome) \<times> lib" where
  "add_local dir pid src n w =
     (case src of
        None \<Rightarrow> (Inl Not_a_file, w)
      | Some cs \<Rightarrow>
          lib_bind (stage_add n) (\<lambda>_.
            temp_guard (temp_name pid n)
              (lib_bind (and_then (lib_do (make_file (temp_name pid n))) (write_chunks (temp_name pid n) cs))
                (\<lambda>_. commit_add dir (temp_name pid n) n))) w)"

definition max_download_bytes :: nat where
  "max_download_bytes = 128 * 2 ^ 30"

text \<open>The body of a download: each read gives a chunk or an error (None), an empty chunk ends it.\<close>

fun copy_capped :: "nat \<Rightarrow> string \<Rightarrow> nat \<Rightarrow> bytes option list \<Rightarrow> lib \<Rightarrow> (lib_error + nat) \<times> lib" where
  "copy_capped m tmp written [] w = (Inr written, w)"
| "copy_capped m tmp written (None # rs) w = (Inl Read_failed, w)"
| "copy_capped m tmp written (Some c # rs) w =
     (if c = [] then (Inr written, w)
      else if written + length c > m then (Inl Too_large, w)
      else lib_bind (lib_do (append_bytes tmp c)) (\<lambda>_. copy_capped m tmp (written + length c) rs) w)"

record http_answer =
  h_length :: "nat option"
  h_body :: "bytes option list"

definition fetch_to :: "string \<Rightarrow> http_answer option \<Rightarrow> lib \<Rightarrow> (lib_error + nat) \<times> lib" where
  "fetch_to tmp resp w =
     (case resp of
        None \<Rightarrow> (Inl Get_failed, w)
      | Some a \<Rightarrow>
          (case h_length a of
             Some len \<Rightarrow> if len > max_download_bytes then (Inl (Advertised_too_large len), w)
                        else lib_bind (lib_do (make_file tmp)) (\<lambda>_. copy_capped max_download_bytes tmp 0 (h_body a)) w
           | None \<Rightarrow> lib_bind (lib_do (make_file tmp)) (\<lambda>_. copy_capped max_download_bytes tmp 0 (h_body a)) w))"

definition add_url :: "string \<Rightarrow> nat \<Rightarrow> http_answer option \<Rightarrow> string \<Rightarrow> lib \<Rightarrow> (lib_error + add_outcome) \<times> lib" where
  "add_url dir pid resp n =
     lib_bind (stage_add n) (\<lambda>_.
       temp_guard (temp_name pid n)
         (lib_bind (fetch_to (temp_name pid n) resp) (\<lambda>_ w.
            commit_add dir (temp_name pid n) n (snd (lib_do touch_dir w)))))"

definition models_add :: "(string \<Rightarrow> http_answer option) \<Rightarrow> (string \<Rightarrow> bytes list option) \<Rightarrow> string \<Rightarrow> nat
    \<Rightarrow> string \<Rightarrow> lib \<Rightarrow> (lib_error + add_outcome) \<times> lib" where
  "models_add get disk dir pid source w =
     (let s = normalize_download_url source in
      case dest_name s of
        Inl e \<Rightarrow> (Inl e, w)
      | Inr n \<Rightarrow> if is_url s then add_url dir pid (get s) n w else add_local dir pid (disk s) n w)"

section \<open>Removing a model\<close>

record node_served =
  ns_node :: string
  ns_reachable :: bool
  ns_served :: "string option"

record rm_verdict =
  g_serving :: "string list"
  g_unknown :: "string list"

text \<open>\<open>status\<close> asks a node over its transport.\<close>

definition served_across_fleet :: "(node \<Rightarrow> node_status) \<Rightarrow> node list \<Rightarrow> node_served list" where
  "served_across_fleet status ns =
     map (\<lambda>n. if for_node n = None then \<lparr>ns_node = n_name n, ns_reachable = False, ns_served = None\<rparr>
       else \<lparr>ns_node = n_name n, ns_reachable = st_reachable (status n), ns_served = st_served (status n)\<rparr>) ns"

definition rm_guard :: "string \<Rightarrow> node_served list \<Rightarrow> rm_verdict" where
  "rm_guard t rs =
     \<lparr>g_serving = map ns_node (filter (\<lambda>r. ns_reachable r \<and> ns_served r = Some t) rs),
      g_unknown = map ns_node (filter (\<lambda>r. \<not> ns_reachable r) rs)\<rparr>"

definition rm_blocks :: "rm_verdict \<Rightarrow> bool \<Rightarrow> bool" where
  "rm_blocks g force \<longleftrightarrow> \<not> (force \<or> g_serving g = [])"

definition pick_name :: "string \<Rightarrow> string list \<Rightarrow> lib_error + string" where
  "pick_name q names =
     (if q \<in> set names then Inr q
      else case filter (\<lambda>n. contains (lower n) (lower q)) names of
             [] \<Rightarrow> Inl (No_match q)
           | [n] \<Rightarrow> Inr n
           | ms \<Rightarrow> Inl (Ambiguous (take 8 ms)))"

definition resolve_rm :: "string \<Rightarrow> lib \<Rightarrow> (lib_error + string) \<times> lib" where
  "resolve_rm query w =
     (if trim query = [] then (Inl Blank_query, w)
      else lib_bind (lib_do touch_dir) (\<lambda>_ w.
        (pick_name (trim query) (filter (\<lambda>n. extension n = Some ''gguf'') (map fst (l_files w))), w)) w)"

datatype rm_result =
    Rm_error lib_error
  | Rm_refused string
  | Rm_aborted string
  | Rm_blocked "string list"
  | Removed string bool "string list"

text \<open>\<open>confirm\<close> is the question on the terminal: None where there is none to ask on.\<close>

definition models_rm :: "(string \<Rightarrow> bool option) \<Rightarrow> (node \<Rightarrow> node_status) \<Rightarrow> node list \<Rightarrow> string \<Rightarrow> bool \<Rightarrow> bool
    \<Rightarrow> bool \<Rightarrow> lib \<Rightarrow> rm_result \<times> lib" where
  "models_rm confirm status ns query yes force json w =
     (case resolve_rm query w of
        (Inl e, w) \<Rightarrow> (Rm_error e, w)
      | (Inr n, w) \<Rightarrow>
          (case (if yes \<or> force then Some True else if json then None else confirm n) of
             None \<Rightarrow> (Rm_refused n, w)
           | Some False \<Rightarrow> (Rm_aborted n, w)
           | Some True \<Rightarrow>
               (let g = (if force then \<lparr>g_serving = [], g_unknown = []\<rparr>
                         else rm_guard n (served_across_fleet status ns)) in
                if rm_blocks g force then (Rm_blocked (g_serving g), w)
                else case lib_do (delete_file n) w of
                       (Inl e, w) \<Rightarrow> (Rm_error e, w)
                     | (Inr _, w) \<Rightarrow> (Removed n force (g_unknown g), w))))"

section \<open>What the nodes see\<close>

text \<open>Discovery lists only names with the extension \<open>gguf\<close>.\<close>

definition visible :: "ldir \<Rightarrow> ldir" where
  "visible d = filter (\<lambda>e. extension (fst e) = Some ''gguf'') d"

definition tracks :: "(ldir \<Rightarrow> bool) \<Rightarrow> lib \<Rightarrow> lib \<Rightarrow> bool" where
  "tracks P w w' \<longleftrightarrow> (\<exists>ds. l_seen w' = ds @ l_seen w \<and> list_all P ds)"

text \<open>Only the staging file differs from the directory the operation started with.\<close>

definition staged_only :: "string \<Rightarrow> ldir \<Rightarrow> ldir \<Rightarrow> bool" where
  "staged_only tmp d0 d \<longleftrightarrow> d = d0 \<or> (\<exists>bs. d = bt_insert tmp bs d0)"

definition quiet :: "string \<Rightarrow> ldir \<Rightarrow> lib \<Rightarrow> lib \<Rightarrow> bool" where
  "quiet tmp d0 w w' \<longleftrightarrow> tracks (staged_only tmp d0) w w' \<and> staged_only tmp d0 (l_files w') \<and>
     (l_faults w = [] \<longrightarrow> l_faults w' = [])"

lemma tracks_refl [simp]: "tracks P w w"
  by (simp add: tracks_def)

lemma tracks_trans: "tracks P w w1 \<Longrightarrow> tracks P w1 w2 \<Longrightarrow> tracks P w w2"
  by (fastforce simp: tracks_def)

lemma tracks_mono: "tracks P w w' \<Longrightarrow> (\<And>d. P d \<Longrightarrow> Q d) \<Longrightarrow> tracks Q w w'"
  by (auto simp: tracks_def list_all_iff)

lemma quiet_trans: "quiet tmp d0 w w1 \<Longrightarrow> quiet tmp d0 w1 w2 \<Longrightarrow> quiet tmp d0 w w2"
  by (auto simp: quiet_def intro: tracks_trans)

lemma quiet_faults: "quiet tmp d0 w w' \<Longrightarrow> l_faults w = [] \<Longrightarrow> l_faults w' = []"
  by (simp add: quiet_def)

lemma lib_do_cases:
  obtains (ok) w' where "lib_do f w = (Inr (), w')" and "l_files w' = f None (l_files w)"
      and "tracks (\<lambda>d. d = l_files w') w w'" and "l_faults w = [] \<longrightarrow> l_faults w' = []"
  | (bad) k w' where "lib_do f w = (Inl Io_failed, w')" and "l_files w' = f (Some k) (l_files w)"
      and "tracks (\<lambda>d. d = l_files w') w w'" and "l_faults w \<noteq> []"
proof -
  obtain r w' where e: "lib_do f w = (r, w')" by (rule prod.exhaust)
  define x where "x = (case l_faults w of [] \<Rightarrow> None | y # _ \<Rightarrow> y)"
  from e have r: "r = (if x = None then Inr () else Inl Io_failed)"
    and w': "w' = w\<lparr>l_files := f x (l_files w), l_faults := tl (l_faults w), l_seen := f x (l_files w) # l_seen w\<rparr>"
    by (simp_all add: lib_do_def x_def Let_def)
  then have t: "tracks (\<lambda>d. d = l_files w') w w'" by (simp add: tracks_def)
  show thesis
  proof (cases x)
    case None
    with e r w' t show thesis by (intro ok [of w']) simp_all
  next
    case (Some k)
    then have "l_faults w \<noteq> []" by (auto simp: x_def)
    with Some e r w' t show thesis by (intro bad [of w' k]) simp_all
  qed
qed

lemma quiet_do:
  assumes "\<And>x. staged_only tmp d0 (f x (l_files w))"
  shows "quiet tmp d0 w (snd (lib_do f w))"
  using assms by (cases rule: lib_do_cases [of f w]) (auto simp: quiet_def elim: tracks_mono)

lemma lib_bind_cases:
  obtains (bad) e w' where "f w = (Inl e, w')" and "lib_bind f g w = (Inl e, w')"
  | (ok) a w' where "f w = (Inr a, w')" and "lib_bind f g w = g a w'"
proof (cases "f w")
  case (Pair r w')
  with that show thesis by (cases r) (auto simp: lib_bind_def)
qed

lemma bt_insert_twice: "bt_wf d \<Longrightarrow> bt_insert n v (bt_insert n u d) = bt_insert n v d"
  by (rule bt.ins_ins)

lemma bt_remove_inserted: "bt_wf d \<Longrightarrow> bt_get d n = None \<Longrightarrow> bt_remove n (bt_insert n v d) = d"
  by (rule bt.rem_ins)

lemma bt_remove_absent: "bt_wf d \<Longrightarrow> bt_get d n = None \<Longrightarrow> bt_remove n d = d"
  by (rule bt.ext) (auto simp: bt_simps)

lemma append_bytes_at:
  "bt_wf d0 \<Longrightarrow> append_bytes n c x (bt_insert n bs d0) =
     bt_insert n (bs @ (case x of None \<Rightarrow> c | Some k \<Rightarrow> take k c)) d0"
  by (simp add: append_bytes_def bt_simps bt_insert_twice)

section \<open>Filling the staging file\<close>

lemma append_quiet:
  assumes "bt_wf d0" and "l_files w = bt_insert tmp bs d0"
  shows "quiet tmp d0 w (snd (lib_do (append_bytes tmp c) w))"
  by (rule quiet_do) (auto simp: assms append_bytes_at staged_only_def)

lemma write_chunks_effect:
  assumes "bt_wf d0" and "l_files w = bt_insert tmp bs d0" and "write_chunks tmp cs w = (r, w')"
  shows "quiet tmp d0 w w' \<and> (r = Inr () \<longrightarrow> l_files w' = bt_insert tmp (bs @ concat cs) d0)"
  using assms(2,3)
proof (induction cs arbitrary: w bs)
  case Nil
  then show ?case by (auto simp: quiet_def staged_only_def)
next
  case (Cons c cs)
  note q = append_quiet [OF assms(1) Cons.prems(1), of c]
  show ?case
  proof (cases rule: lib_do_cases [of "append_bytes tmp c" w])
    case (ok w1)
    with Cons.prems assms(1) have "l_files w1 = bt_insert tmp (bs @ c) d0"
      and "write_chunks tmp cs w1 = (r, w')"
      by (simp_all add: append_bytes_at and_then_def)
    from Cons.IH [OF this] q ok show ?thesis by (auto intro: quiet_trans)
  next
    case (bad k w1)
    with Cons.prems q show ?thesis by (auto simp: and_then_def)
  qed
qed

fun body_bytes :: "bytes option list \<Rightarrow> bytes" where
  "body_bytes (Some c # rs) = (if c = [] then [] else c @ body_bytes rs)"
| "body_bytes _ = []"

lemma copy_capped_effect:
  assumes "bt_wf d0" and "l_files w = bt_insert tmp bs d0" and "copy_capped m tmp k rs w = (r, w')" and "k \<le> m"
  shows "quiet tmp d0 w w' \<and>
    (is_ok r \<longrightarrow> l_files w' = bt_insert tmp (bs @ body_bytes rs) d0 \<and>
       r = Inr (k + length (body_bytes rs)) \<and> k + length (body_bytes rs) \<le> m)"
  using assms(2-4)
proof (induction m tmp k rs w arbitrary: bs rule: copy_capped.induct)
  case (3 m tmp k c rs w)
  show ?case
  proof (cases "c = [] \<or> k + length c > m")
    case True
    with "3.prems" show ?thesis by (auto simp: quiet_def staged_only_def split: if_splits)
  next
    case False
    note q = append_quiet [OF assms(1) "3.prems"(1), of c]
    show ?thesis
    proof (cases rule: lib_do_cases [of "append_bytes tmp c" w])
      case (ok w1)
      with "3.prems" False assms(1) have "l_files w1 = bt_insert tmp (bs @ c) d0"
        and "copy_capped m tmp (k + length c) rs w1 = (r, w')"
        by (simp_all add: append_bytes_at lib_bind_def)
      from "3.IH" [OF _ _ this] q ok False show ?thesis by (auto intro: quiet_trans simp: add.assoc)
    next
      case (bad j w1)
      with "3.prems" False q show ?thesis by (auto simp: lib_bind_def)
    qed
  qed
qed (auto simp: quiet_def staged_only_def)

section \<open>Committing\<close>

lemma touch_cases:
  assumes "staged_only tmp d0 (l_files w)"
  obtains (ok) w' where "lib_do touch_dir w = (Inr (), w')" and "l_files w' = l_files w" and "quiet tmp d0 w w'"
  | (bad) w' where "lib_do touch_dir w = (Inl Io_failed, w')" and "l_files w' = l_files w"
      and "quiet tmp d0 w w'" and "l_faults w \<noteq> []"
proof -
  have q: "quiet tmp d0 w (snd (lib_do touch_dir w))"
    by (rule quiet_do) (simp add: touch_dir_def assms)
  show thesis
    by (cases rule: lib_do_cases [of touch_dir w]) (use q ok bad in \<open>auto simp: touch_dir_def\<close>)
qed

lemma tracks_do: "tracks (\<lambda>d. d = l_files (snd (lib_do f w))) w (snd (lib_do f w))"
  by (cases rule: lib_do_cases [of f w]) auto

lemma is_gguf_effect:
  assumes "bt_wf d0" and "l_files w = bt_insert tmp bs d0" and "is_gguf tmp w = (b, w')"
  shows "l_files w' = l_files w \<and> quiet tmp d0 w w' \<and> (b \<longrightarrow> take 4 bs = magic) \<and>
    (l_faults w = [] \<longrightarrow> b = (take 4 bs = magic))"
proof -
  have "staged_only tmp d0 (l_files w)" by (auto simp: assms(2) staged_only_def)
  then show ?thesis
    by (cases rule: touch_cases)
      (use assms in \<open>auto simp: is_gguf_def bt_simps\<close>)
qed

definition committed :: "string \<Rightarrow> string \<Rightarrow> string \<Rightarrow> bytes \<Rightarrow> ldir \<Rightarrow> lib \<Rightarrow> (lib_error + add_outcome) \<times> lib \<Rightarrow> bool" where
  "committed dir tmp n bs d0 w p \<longleftrightarrow>
     (case p of
        (Inl e, w') \<Rightarrow> quiet tmp d0 w w'
      | (Inr out, w') \<Rightarrow>
          take 4 bs = magic \<and> out = \<lparr>ad_name = n, ad_path = path_join dir n, ad_size = length bs\<rparr> \<and>
          l_files w' = bt_insert n bs d0 \<and>
          tracks (\<lambda>d. staged_only tmp d0 d \<or> d = l_files w') w w')"

lemma committed_quiet: "quiet tmp d0 w w1 \<Longrightarrow> committed dir tmp n bs d0 w1 p \<Longrightarrow> committed dir tmp n bs d0 w p"
  unfolding committed_def
  by (auto intro: quiet_trans elim!: tracks_trans [rotated] split: prod.splits sum.splits)
     (auto simp: quiet_def elim: tracks_mono)

lemma commit_effect:
  assumes d0: "bt_wf d0" "bt_get d0 tmp = None" and f: "l_files w = bt_insert tmp bs d0"
  shows "committed dir tmp n bs d0 w (commit_add dir tmp n w) \<and>
    (l_faults w = [] \<longrightarrow> take 4 bs = magic \<longrightarrow> is_ok (fst (commit_add dir tmp n w)))"
proof -
  obtain b w1 where 1: "is_gguf tmp w = (b, w1)" by (rule prod.exhaust)
  note g = is_gguf_effect [OF d0(1) f 1]
  show ?thesis
  proof (cases b)
    case False
    with 1 g show ?thesis by (auto simp: commit_add_def committed_def)
  next
    case True
    with g have s1: "staged_only tmp d0 (l_files w1)" and m: "take 4 bs = magic"
      by (auto simp: f staged_only_def)
    from s1 show ?thesis
    proof (cases rule: touch_cases)
      case (bad w2)
      with 1 True g show ?thesis by (auto simp: commit_add_def lib_bind_def committed_def intro: quiet_trans dest: quiet_faults)
    next
      case (ok w2)
      with g f have f2: "l_files w2 = bt_insert tmp bs d0" by simp
      have q2: "quiet tmp d0 w w2" using g ok by (blast intro: quiet_trans)
      have size: "(case bt_get (l_files w2) tmp of None \<Rightarrow> 0 | Some bs \<Rightarrow> length bs) = length bs"
        by (simp add: f2 bt_simps d0)
      show ?thesis
      proof (cases rule: lib_do_cases [of "rename_to tmp n" w2])
        case (ok w3)
        then have f3: "l_files w3 = bt_insert n bs d0"
          by (simp add: f2 rename_to_def bt_simps d0 bt_remove_inserted)
        have "commit_add dir tmp n w = (Inr \<lparr>ad_name = n, ad_path = path_join dir n, ad_size = length bs\<rparr>, w3)"
          using 1 True ok(1) \<open>lib_do touch_dir w1 = (Inr (), w2)\<close>
          by (simp add: commit_add_def lib_bind_def size)
        moreover have "tracks (\<lambda>d. staged_only tmp d0 d \<or> d = l_files w3) w w3"
          using q2 ok(3) by (auto simp: quiet_def intro: tracks_trans elim: tracks_mono)
        ultimately show ?thesis using f3 m by (simp add: committed_def)
      next
        case (bad k w3)
        then have s3: "staged_only tmp d0 (l_files w3)"
          by (auto simp: f2 rename_to_def bt_simps d0 staged_only_def)
        have "tracks (staged_only tmp d0) w2 w3" by (rule tracks_mono [OF bad(3)]) (simp add: s3)
        with s3 bad(4) have "quiet tmp d0 w2 w3" by (simp add: quiet_def)
        with q2 have "quiet tmp d0 w w3" by (rule quiet_trans)
        moreover have "l_faults w \<noteq> []" using q2 bad(4) by (auto simp: quiet_def)
        ultimately show ?thesis
          using 1 True bad(1) \<open>lib_do touch_dir w1 = (Inr (), w2)\<close>
          by (simp add: commit_add_def lib_bind_def size committed_def)
      qed
    qed
  qed
qed

section \<open>Adding is atomic\<close>

definition add_ok :: "string \<Rightarrow> string \<Rightarrow> string \<Rightarrow> bytes \<Rightarrow> lib \<Rightarrow> (lib_error + add_outcome) \<times> lib \<Rightarrow> bool" where
  "add_ok dir tmp n bs w p \<longleftrightarrow> committed dir tmp n bs (l_files w) w p \<and>
     (is_ok (fst p) \<longrightarrow> bt_get (l_files w) n = None) \<and>
     (l_faults w = [] \<longrightarrow> \<not> is_ok (fst p) \<longrightarrow> l_files (snd p) = l_files w)"

lemma stage_add_cases:
  obtains (bad) e w' where "stage_add n w = (Inl e, w')" and "l_files w' = l_files w" and "quiet tmp (l_files w) w w'"
  | (ok) w' where "stage_add n w = (Inr (), w')" and "l_files w' = l_files w" and "quiet tmp (l_files w) w w'"
      and "bt_get (l_files w) n = None"
proof -
  have s: "staged_only tmp (l_files w) (l_files w)" by (simp add: staged_only_def)
  then show thesis
  proof (cases rule: touch_cases)
    case (ok w1)
    show thesis
    proof (cases "bt_get (l_files w) n = None")
      case True
      with ok show thesis by (intro that(2) [of w1]) (simp_all add: stage_add_def lib_bind_def)
    next
      case False
      with ok show thesis by (intro that(1) [of "Already_exists n" w1]) (auto simp: stage_add_def lib_bind_def guard_err_def)
    qed
  next
    case (bad w1)
    then show thesis by (intro that(1) [of Io_failed w1]) (simp_all add: stage_add_def lib_bind_def)
  qed
qed

lemma temp_guard_committed:
  assumes d0: "bt_wf d0" "bt_get d0 tmp = None" and c: "committed dir tmp n bs d0 w (f w)"
  shows "committed dir tmp n bs d0 w (temp_guard tmp f w) \<and>
    is_ok (fst (temp_guard tmp f w)) = is_ok (fst (f w)) \<and>
    (l_faults w = [] \<longrightarrow> \<not> is_ok (fst (f w)) \<longrightarrow> l_files (snd (temp_guard tmp f w)) = d0)"
proof -
  obtain r w1 where f: "f w = (r, w1)" by (rule prod.exhaust)
  show ?thesis
  proof (cases r)
    case (Inr out)
    with f c show ?thesis by (simp add: temp_guard_def)
  next
    case (Inl e)
    with f c have q: "quiet tmp d0 w w1" by (simp add: committed_def)
    then have s: "staged_only tmp d0 (l_files w1)" by (simp add: quiet_def)
    have del: "delete_file tmp x (l_files w1) = (if x = None then d0 else l_files w1)" for x
      using s d0 by (auto simp: delete_file_def staged_only_def bt_remove_inserted bt_remove_absent)
    have "quiet tmp d0 w1 (snd (lib_do (delete_file tmp) w1))"
      by (rule quiet_do) (use del s in \<open>auto simp: staged_only_def\<close>)
    with q have "quiet tmp d0 w (snd (lib_do (delete_file tmp) w1))" by (rule quiet_trans)
    moreover have "l_files (snd (lib_do (delete_file tmp) w1)) = d0" if "l_faults w = []"
      using quiet_faults [OF q that] del by (cases rule: lib_do_cases [of "delete_file tmp" w1]) auto
    ultimately show ?thesis using f Inl by (simp add: temp_guard_def committed_def)
  qed
qed

lemma make_file_effect:
  assumes "lib_do (make_file tmp) w = (r, w')"
  shows "quiet tmp (l_files w) w w' \<and> (r = Inr () \<longrightarrow> l_files w' = bt_insert tmp [] (l_files w))"
proof -
  have "quiet tmp (l_files w) w (snd (lib_do (make_file tmp) w))"
    by (rule quiet_do) (auto simp: make_file_def staged_only_def)
  with assms show ?thesis
    by (cases rule: lib_do_cases [of "make_file tmp" w]) (auto simp: make_file_def)
qed

text \<open>The two add paths share the shape: stage, fill the staging file under the guard, commit.\<close>

lemma add_shape:
  assumes d0: "bt_wf (l_files w)" "bt_get (l_files w) tmp = None"
    and fill: "\<And>w1 r w2. l_files w1 = l_files w \<Longrightarrow> fill w1 = (r, w2) \<Longrightarrow>
      quiet tmp (l_files w) w1 w2 \<and> (is_ok r \<longrightarrow> l_files w2 = bt_insert tmp bs (l_files w))"
  shows "add_ok dir tmp n bs w
    (lib_bind (stage_add n) (\<lambda>_. temp_guard tmp (lib_bind fill (\<lambda>_. commit_add dir tmp n))) w)"
proof (cases rule: stage_add_cases [of n w tmp])
  case (bad e w1)
  then show ?thesis by (simp add: lib_bind_def add_ok_def committed_def)
next
  case (ok w1)
  let ?f = "lib_bind fill (\<lambda>_. commit_add dir tmp n)"
  have "committed dir tmp n bs (l_files w) w1 (?f w1)"
  proof (cases rule: lib_bind_cases [of fill w1 "\<lambda>_. commit_add dir tmp n"])
    case (bad e w2)
    with fill [OF ok(2) bad(1)] show ?thesis by (simp add: committed_def)
  next
    case (ok x w2)
    with fill [OF \<open>l_files w1 = l_files w\<close> ok(1)] have q: "quiet tmp (l_files w) w1 w2"
      and f: "l_files w2 = bt_insert tmp bs (l_files w)" by simp_all
    from commit_effect [OF d0 f, of dir n] q ok(2) show ?thesis by (auto intro: committed_quiet)
  qed
  from temp_guard_committed [where f = ?f, OF d0 this] ok show ?thesis
    by (auto simp: lib_bind_def [of "stage_add n"] add_ok_def intro: committed_quiet dest: quiet_faults)
qed

lemma add_local_ok:
  assumes "bt_wf (l_files w)" and "bt_get (l_files w) (temp_name pid n) = None"
  shows "add_ok dir (temp_name pid n) n (concat cs) w (add_local dir pid (Some cs) n w)"
proof -
  let ?t = "temp_name pid n"
  let ?fill = "and_then (lib_do (make_file ?t)) (write_chunks ?t cs)"
  have "quiet ?t (l_files w) w1 w2 \<and> (is_ok r \<longrightarrow> l_files w2 = bt_insert ?t (concat cs) (l_files w))"
    if f: "l_files w1 = l_files w" and run: "?fill w1 = (r, w2)" for w1 r w2
  proof (cases rule: and_then_cases [of "lib_do (make_file ?t)" w1 "write_chunks ?t cs"])
    case (first e w')
    with run make_file_effect [OF first(1)] f show ?thesis by auto
  next
    case (both w')
    with make_file_effect [OF both(1)] f have m: "quiet ?t (l_files w) w1 w'" "l_files w' = bt_insert ?t [] (l_files w)"
      by simp_all
    from both(2) run have "write_chunks ?t cs w' = (r, w2)" by simp
    from write_chunks_effect [OF assms(1) m(2) this] m(1) show ?thesis
      by (auto simp: is_ok_unit intro: quiet_trans)
  qed
  from add_shape [OF assms this] show ?thesis by (simp add: add_local_def)
qed

lemma fetch_effect:
  assumes "bt_wf (l_files w)" and "fetch_to tmp resp w = (r, w')"
  shows "quiet tmp (l_files w) w w' \<and>
    (is_ok r \<longrightarrow> (\<exists>a. resp = Some a \<and> l_files w' = bt_insert tmp (body_bytes (h_body a)) (l_files w) \<and>
       length (body_bytes (h_body a)) \<le> max_download_bytes))"
proof (cases "\<exists>a. resp = Some a \<and> \<not> (\<exists>len. h_length a = Some len \<and> len > max_download_bytes)")
  case False
  with assms(2) have "w' = w \<and> \<not> is_ok r"
    by (auto simp: fetch_to_def split: option.splits)
  then show ?thesis by (simp add: quiet_def staged_only_def)
next
  case True
  then obtain a where a: "resp = Some a" "\<not> (\<exists>len. h_length a = Some len \<and> len > max_download_bytes)" by blast
  with assms(2) have run: "lib_bind (lib_do (make_file tmp)) (\<lambda>_. copy_capped max_download_bytes tmp 0 (h_body a)) w = (r, w')"
    by (auto simp: fetch_to_def split: option.splits)
  show ?thesis
  proof (cases rule: lib_bind_cases [of "lib_do (make_file tmp)" w "\<lambda>_. copy_capped max_download_bytes tmp 0 (h_body a)"])
    case (bad e w1)
    with run make_file_effect [OF bad(1)] show ?thesis by auto
  next
    case (ok u w1)
    with make_file_effect [OF ok(1)] have m: "quiet tmp (l_files w) w w1" "l_files w1 = bt_insert tmp [] (l_files w)"
      by simp_all
    from ok(2) run have "copy_capped max_download_bytes tmp 0 (h_body a) w1 = (r, w')" by simp
    from copy_capped_effect [OF assms(1) m(2) this] m(1) a(1) show ?thesis by (auto intro: quiet_trans)
  qed
qed

lemma add_url_ok:
  assumes "bt_wf (l_files w)" and "bt_get (l_files w) (temp_name pid n) = None"
  shows "\<exists>bs. add_ok dir (temp_name pid n) n bs w (add_url dir pid resp n w) \<and>
    (is_ok (fst (add_url dir pid resp n w)) \<longrightarrow>
      (\<exists>a. resp = Some a \<and> bs = body_bytes (h_body a) \<and> length bs \<le> max_download_bytes))"
proof -
  let ?t = "temp_name pid n"
  let ?bs = "(case resp of None \<Rightarrow> [] | Some a \<Rightarrow> body_bytes (h_body a))"
  let ?fill = "\<lambda>w. (case fetch_to ?t resp w of (r, w) \<Rightarrow> case r of Inl e \<Rightarrow> (Inl e, w) | Inr k \<Rightarrow> (Inr k, snd (lib_do touch_dir w)))"
  have shape: "lib_bind ?fill (\<lambda>_. commit_add dir ?t n) =
      lib_bind (fetch_to ?t resp) (\<lambda>_ w. commit_add dir ?t n (snd (lib_do touch_dir w)))"
    by (rule ext) (auto simp: lib_bind_def split: prod.splits sum.splits)
  have fill: "quiet ?t (l_files w) w1 w2 \<and> (is_ok r \<longrightarrow> l_files w2 = bt_insert ?t ?bs (l_files w))"
    if f: "l_files w1 = l_files w" and run: "?fill w1 = (r, w2)" for w1 r w2
  proof -
    obtain r3 w3 where 3: "fetch_to ?t resp w1 = (r3, w3)" by (rule prod.exhaust)
    have e: "quiet ?t (l_files w) w1 w3"
      "is_ok r3 \<longrightarrow> l_files w3 = bt_insert ?t ?bs (l_files w)"
      using fetch_effect [OF _ 3] f assms(1) by auto
    then have s: "staged_only ?t (l_files w) (l_files w3)" by (simp add: quiet_def)
    have "quiet ?t (l_files w) w3 (snd (lib_do touch_dir w3)) \<and> l_files (snd (lib_do touch_dir w3)) = l_files w3"
      by (cases rule: touch_cases [OF s]) auto
    with e run 3 show ?thesis by (auto intro: quiet_trans split: sum.splits)
  qed
  from add_shape [where dir = dir and n = n and fill = ?fill, OF assms fill] have main: "add_ok dir ?t n ?bs w (add_url dir pid resp n w)"
    unfolding add_url_def shape by simp
  have "\<exists>a. resp = Some a \<and> length (body_bytes (h_body a)) \<le> max_download_bytes"
    if ok: "is_ok (fst (add_url dir pid resp n w))"
  proof (cases rule: stage_add_cases [of n w ?t])
    case (bad e w1)
    with ok show ?thesis by (simp add: add_url_def lib_bind_def)
  next
    case s: (ok w1)
    obtain r3 w3 where 3: "fetch_to ?t resp w1 = (r3, w3)" by (rule prod.exhaust)
    have "is_ok r3"
      using ok s(1) 3 by (cases r3) (auto simp: add_url_def lib_bind_def temp_guard_def)
    with fetch_effect [OF _ 3] s(2) assms(1) show ?thesis by auto
  qed
  with main show ?thesis by (intro exI [of _ ?bs]) auto
qed

section \<open>The names\<close>

lemma dest_name_shape:
  assumes "dest_name s = Inr n"
  shows "plain_name n \<and> ends_with (lower n) ''.gguf'' \<and> hd n \<noteq> CHR ''.'' \<and> hd n \<noteq> CHR ''-'' \<and>
    \<not> list_ex special_char n"
proof -
  from assms have n: "n \<noteq> []" "ends_with (lower n) ''.gguf''" "\<not> starts_with n ''.''" "\<not> starts_with n ''-''"
    "\<not> list_ex special_char n"
    by (auto simp: dest_name_def Let_def split: if_splits)
  then have h: "hd n \<noteq> CHR ''.''" "hd n \<noteq> CHR ''-''" by (cases n; simp)+
  have "sep \<notin> set n" using n(5) by (auto simp: list_ex_iff special_char_def sep_def)
  with n h show ?thesis by (auto simp: plain_name_def)
qed

lemma temp_name_part:
  assumes "plain_name n"
  shows "extension (temp_name pid n) = Some ''part'' \<and> hd (temp_name pid n) = CHR ''.''"
proof -
  let ?s = "''.llmtune-add-'' @ n @ ''.'' @ show_nat pid"
  have "sep \<notin> set (show_nat pid)"
    using show_nat_digits [of pid] by (auto simp: list_all_iff sep_def is_digit_def)
  with assms have p: "plain_name (temp_name pid n)"
    by (auto simp: plain_name_def temp_name_def sep_def)
  have "temp_name pid n = ?s @ ''.part''" by (simp add: temp_name_def)
  moreover have "rsplit_once CHR ''.'' (?s @ ''.part'') = Some (?s, ''part'')"
    by (simp add: rsplit_once_def)
  ultimately have "rsplit_once CHR ''.'' (temp_name pid n) = Some (?s, ''part'')" by simp
  then have "extension (temp_name pid n) = Some ''part''"
    by (simp add: extension_def file_name_plain [OF p])
  then show ?thesis by (simp add: temp_name_def)
qed

lemma visible_insert:
  assumes "bt_wf d" and "extension n \<noteq> Some ''gguf''"
  shows "visible (bt_insert n bs d) = visible d"
  unfolding visible_def
  by (rule bt_ext)
    (use assms in \<open>auto simp: bt_wf_filter bt_wf_insert bt_get_insert
       bt_get_filter [where P = "\<lambda>n. extension n = Some ''gguf''"]\<close>)

lemma visible_staged: "bt_wf d0 \<Longrightarrow> plain_name n \<Longrightarrow> staged_only (temp_name pid n) d0 d \<Longrightarrow> visible d = visible d0"
  using temp_name_part [of n pid] by (auto simp: staged_only_def visible_insert)

text \<open>What a source contains: the body of the answer or the bytes of the file.\<close>

definition content_of :: "(string \<Rightarrow> http_answer option) \<Rightarrow> (string \<Rightarrow> bytes list option) \<Rightarrow> string \<Rightarrow> bytes option" where
  "content_of get disk s =
     (if is_url s then map_option (\<lambda>a. body_bytes (h_body a)) (get s) else map_option concat (disk s))"

lemma models_add_cases:
  assumes wf: "bt_wf (l_files w)" and fresh: "\<And>n. bt_get (l_files w) (temp_name pid n) = None"
    and run: "models_add get disk dir pid source w = (r, w')"
  obtains (early) e where "r = Inl e" and "w' = w"
  | (ran) n bs where "dest_name (normalize_download_url source) = Inr n"
      and "add_ok dir (temp_name pid n) n bs w (r, w')"
      and "is_ok r \<Longrightarrow> content_of get disk (normalize_download_url source) = Some bs"
      and "is_ok r \<Longrightarrow> is_url (normalize_download_url source) \<Longrightarrow> length bs \<le> max_download_bytes"
proof -
  define s where "s = normalize_download_url source"
  show thesis
  proof (cases "dest_name s")
    case (Inl e)
    with run show thesis by (intro early [of e]) (simp_all add: models_add_def Let_def s_def)
  next
    case n: (Inr n)
    have p: "(r, w') = (if is_url s then add_url dir pid (get s) n w else add_local dir pid (disk s) n w)"
      using run n by (simp add: models_add_def Let_def s_def [symmetric])
    show thesis
    proof (cases "is_url s")
      case True
      then have e: "add_url dir pid (get s) n w = (r, w')" using p by simp
      from add_url_ok [OF wf fresh [of n], of dir "get s"] obtain bs where
        "add_ok dir (temp_name pid n) n bs w (r, w')"
        "is_ok r \<Longrightarrow> content_of get disk s = Some bs \<and> length bs \<le> max_download_bytes"
        unfolding e content_of_def using True by auto
      with n show thesis by (intro ran) (auto simp: s_def)
    next
      case False
      show thesis
      proof (cases "disk s")
        case None
        with p False show thesis by (intro early [of Not_a_file]) (simp_all add: add_local_def)
      next
        case (Some cs)
        then have e: "add_local dir pid (Some cs) n w = (r, w')" using p False by simp
        from add_local_ok [OF wf fresh [of n], of dir cs] have "add_ok dir (temp_name pid n) n (concat cs) w (r, w')"
          unfolding e .
        with n Some False show thesis by (intro ran) (auto simp: s_def content_of_def)
      qed
    qed
  qed
qed

text \<open>
 C34: Adding a model to the exported library is atomic, whichever system calls fail and wherever a write
  stops: every state the directory passes through shows the nodes the models it had before, or is the
  final state of an add that succeeded. A failed add leaves the visible models as they were (and, when
  no call fails, the directory as it was: a rejected file leaves no staging file); a successful one adds
  one new file under the derived name, whose content is exactly the source, starts with the GGUF magic,
  was not there before, and for a download is within the size cap.
\<close>

theorem models_add_atomic:
  assumes wf: "bt_wf (l_files w)" and fresh: "\<And>n. bt_get (l_files w) (temp_name pid n) = None"
    and run: "models_add get disk dir pid source w = (r, w')"
  shows "tracks (\<lambda>d. visible d = visible (l_files w) \<or> is_ok r \<and> d = l_files w') w w' \<and>
    (\<not> is_ok r \<longrightarrow> visible (l_files w') = visible (l_files w) \<and> (l_faults w = [] \<longrightarrow> l_files w' = l_files w)) \<and>
    (\<forall>out. r = Inr out \<longrightarrow> (\<exists>n bs s. s = normalize_download_url source \<and> dest_name s = Inr n \<and>
       content_of get disk s = Some bs \<and> (is_url s \<longrightarrow> length bs \<le> max_download_bytes) \<and>
       bt_get (l_files w) n = None \<and> take 4 bs = magic \<and> l_files w' = bt_insert n bs (l_files w) \<and>
       out = \<lparr>ad_name = n, ad_path = path_join dir n, ad_size = length bs\<rparr>))"
  using wf fresh run
proof (cases rule: models_add_cases)
  case (early e)
  then show ?thesis by simp
next
  case (ran n bs)
  have pl: "plain_name n" using dest_name_shape [OF ran(1)] by simp
  note vis = visible_staged [OF wf pl]
  show ?thesis
  proof (cases r)
    case (Inl e)
    with ran(2) have q: "quiet (temp_name pid n) (l_files w) w w'" and f: "l_faults w = [] \<longrightarrow> l_files w' = l_files w"
      by (simp_all add: add_ok_def committed_def)
    from q have "tracks (\<lambda>d. visible d = visible (l_files w)) w w' \<and> visible (l_files w') = visible (l_files w)"
      using vis by (auto simp: quiet_def elim: tracks_mono)
    with f Inl show ?thesis by simp
  next
    case (Inr out)
    with ran(2) have C: "committed dir (temp_name pid n) n bs (l_files w) w (Inr out, w')"
      and none: "bt_get (l_files w) n = None" by (simp_all add: add_ok_def)
    from C have c: "take 4 bs = magic" "out = \<lparr>ad_name = n, ad_path = path_join dir n, ad_size = length bs\<rparr>"
      "l_files w' = bt_insert n bs (l_files w)"
      and t: "tracks (\<lambda>d. staged_only (temp_name pid n) (l_files w) d \<or> d = l_files w') w w'"
      unfolding committed_def prod.case sum.case by blast+
    from t have "tracks (\<lambda>d. visible d = visible (l_files w) \<or> is_ok r \<and> d = l_files w') w w'"
      using vis Inr by (auto elim: tracks_mono)
    with c none ran(1,3,4) Inr show ?thesis by auto
  qed
qed

lemma models_add_atomic_witness:
  "\<exists>out w'. models_add (\<lambda>_. None) (\<lambda>_. Some [magic, [1, 2]]) ''/lib'' 7 ''/home/u/m.gguf''
       \<lparr>l_files = [(''a.gguf'', magic)], l_faults = [], l_seen = []\<rparr> = (Inr out, w') \<and>
     ad_size out = 6 \<and> bt_get (l_files w') ''m.gguf'' = Some (magic @ [1, 2])"
proof -
  let ?w = "\<lparr>l_files = [(''a.gguf'', magic)], l_faults = [], l_seen = []\<rparr>"
  let ?run = "models_add (\<lambda>_. None) (\<lambda>_. Some [magic, [1, 2]]) ''/lib'' 7 ''/home/u/m.gguf'' ?w"
  have ok: "is_ok (fst ?run)" by code_simp
  obtain r w' where run: "?run = (r, w')" by (rule prod.exhaust)
  have wf: "bt_wf (l_files ?w)" by (simp add: bt_wf_def)
  have fresh: "\<And>n. bt_get (l_files ?w) (temp_name 7 n) = None" by (simp add: temp_name_def)
  have nm: "dest_name ''/home/u/m.gguf'' = Inr ''m.gguf''"
    and src: "normalize_download_url ''/home/u/m.gguf'' = ''/home/u/m.gguf''" "\<not> is_url ''/home/u/m.gguf''"
    by code_simp+
  from models_add_atomic [OF wf fresh run] ok run show ?thesis
    by (cases r) (auto simp: nm src content_of_def bt_get_insert magic_def)
qed

section \<open>Removing spares what is served\<close>

lemma pick_name_mem: "pick_name q ns = Inr n \<Longrightarrow> n \<in> set ns \<and> (q \<in> set ns \<longrightarrow> n = q)"
  by (auto simp: pick_name_def split: if_splits list.splits dest!: filter_eq_ConsD)

lemma pick_name_get:
  assumes "pick_name q (filter P (map fst m)) = Inr n"
  shows "P n \<and> bt_get m n \<noteq> None \<and> (bt_get m q \<noteq> None \<longrightarrow> P q \<longrightarrow> n = q)"
proof -
  have "n \<in> fst ` set m" "P n" "q \<in> fst ` set m \<Longrightarrow> P q \<Longrightarrow> n = q"
    using pick_name_mem [OF assms] by auto
  then show ?thesis by (metis bt_mem_keys)
qed

lemma resolve_rm_effect:
  assumes "resolve_rm query w = (r, w')"
  shows "l_files w' = l_files w \<and> (\<forall>n. r = Inr n \<longrightarrow> extension n = Some ''gguf'' \<and> bt_get (l_files w) n \<noteq> None \<and>
    (bt_get (l_files w) (trim query) \<noteq> None \<longrightarrow> extension (trim query) = Some ''gguf'' \<longrightarrow> n = trim query))"
proof (cases "trim query = []")
  case True
  with assms show ?thesis by (auto simp: resolve_rm_def)
next
  case False
  show ?thesis
  proof (cases rule: lib_do_cases [of touch_dir w])
    case (ok w1)
    with False assms have f: "l_files w' = l_files w"
      and "r = pick_name (trim query) (filter (\<lambda>n. extension n = Some ''gguf'') (map fst (l_files w)))"
      by (simp_all add: resolve_rm_def lib_bind_def touch_dir_def)
    then have g: "r = Inr n \<Longrightarrow> pick_name (trim query) (filter (\<lambda>n. extension n = Some ''gguf'') (map fst (l_files w))) = Inr n"
      for n by simp
    show ?thesis by (intro conjI allI impI f) (use pick_name_get [OF g] in blast)+
  next
    case (bad k w1)
    with False assms show ?thesis by (auto simp: resolve_rm_def lib_bind_def touch_dir_def)
  qed
qed

lemma rm_guard_clear:
  assumes "g_serving (rm_guard t (served_across_fleet status ns)) = []" and "n \<in> set ns"
    and "for_node n \<noteq> None" and "st_reachable (status n)"
  shows "st_served (status n) \<noteq> Some t"
proof
  assume t: "st_served (status n) = Some t"
  let ?r = "\<lparr>ns_node = n_name n, ns_reachable = st_reachable (status n), ns_served = st_served (status n)\<rparr>"
  have "?r \<in> set (served_across_fleet status ns)"
    using assms(2,3) by (auto simp: served_across_fleet_def intro!: image_eqI [of _ _ n])
  with assms(1,4) t show False by (auto simp: rm_guard_def filter_empty_conv)
qed

text \<open>
 C35: \<open>models rm\<close> changes the library only by removing one existing GGUF file, the exactly named one when
  there is one; without \<open>--force\<close> that file is served by no node that can be asked, and the nodes that
  could not be asked are reported. In every other outcome (an error, a refusal, an abort, a block) the
  library is unchanged.
\<close>

theorem rm_spares_served:
  assumes "models_rm confirm status ns query yes force json w = (r, w')"
  shows "(\<forall>n f unk. r = Removed n f unk \<longrightarrow>
      l_files w' = bt_remove n (l_files w) \<and> bt_get (l_files w) n \<noteq> None \<and> extension n = Some ''gguf'' \<and>
      (bt_get (l_files w) (trim query) \<noteq> None \<longrightarrow> extension (trim query) = Some ''gguf'' \<longrightarrow> n = trim query) \<and>
      f = force \<and>
      (\<not> force \<longrightarrow> unk = g_unknown (rm_guard n (served_across_fleet status ns)) \<and>
         (\<forall>nd \<in> set ns. for_node nd \<noteq> None \<longrightarrow> st_reachable (status nd) \<longrightarrow> st_served (status nd) \<noteq> Some n))) \<and>
    ((\<nexists>n f unk. r = Removed n f unk) \<longrightarrow> l_files w' = l_files w)"
proof -
  obtain q w1 where 1: "resolve_rm query w = (q, w1)" by (rule prod.exhaust)
  note e = resolve_rm_effect [OF 1]
  show ?thesis
  proof (cases q)
    case (Inl err)
    with 1 e assms show ?thesis by (auto simp: models_rm_def)
  next
    case (Inr n)
    let ?g = "if force then \<lparr>g_serving = [], g_unknown = []\<rparr> else rm_guard n (served_across_fleet status ns)"
    let ?c = "if yes \<or> force then Some True else if json then None else confirm n"
    consider "?c \<noteq> Some True" | "?c = Some True" "rm_blocks ?g force" | "?c = Some True" "\<not> rm_blocks ?g force"
      by blast
    then show ?thesis
    proof cases
      case 1
      with \<open>resolve_rm query w = (q, w1)\<close> e Inr assms show ?thesis
        by (cases ?c) (auto simp: models_rm_def split: bool.splits option.splits)
    next
      case 2
      with \<open>resolve_rm query w = (q, w1)\<close> e Inr assms show ?thesis
        by (simp add: models_rm_def Let_def) auto
    next
      case 3
      have p: "(r, w') = (case lib_do (delete_file n) w1 of
          (Inl e, w) \<Rightarrow> (Rm_error e, w) | (Inr _, w) \<Rightarrow> (Removed n force (g_unknown ?g), w))"
        using 3 \<open>resolve_rm query w = (q, w1)\<close> Inr assms by (simp add: models_rm_def Let_def)
      have s: "\<not> force \<longrightarrow> g_serving (rm_guard n (served_across_fleet status ns)) = []"
        using 3(2) by (auto simp: rm_blocks_def)
      show ?thesis
      proof (cases rule: lib_do_cases [of "delete_file n" w1])
        case (ok w2)
        with p e Inr s rm_guard_clear show ?thesis by (auto simp: delete_file_def)
      next
        case (bad k w2)
        with p e show ?thesis by (auto simp: delete_file_def)
      qed
    qed
  qed
qed

definition demo_lib :: lib where
  "demo_lib = \<lparr>l_files = [(''a.gguf'', magic), (''b.gguf'', magic)], l_faults = [], l_seen = []\<rparr>"

definition demo_status :: "node \<Rightarrow> node_status" where
  "demo_status n = (unreachable (n_name n))\<lparr>st_reachable := True, st_served := Some ''a.gguf''\<rparr>"

lemma rm_spares_served_witness:
  "\<exists>w'. models_rm (\<lambda>_. None) demo_status [demo_node] ''B'' True False False demo_lib
       = (Removed ''b.gguf'' False [], w') \<and> l_files w' = [(''a.gguf'', magic)] \<and>
     fst (models_rm (\<lambda>_. None) demo_status [demo_node] ''a.gguf'' True False False demo_lib) = Rm_blocked [n_name demo_node]"
proof -
  let ?run = "models_rm (\<lambda>_. None) demo_status [demo_node] ''B'' True False False demo_lib"
  obtain r w' where run: "?run = (r, w')" by (rule prod.exhaust)
  have "fst ?run = Removed ''b.gguf'' False []" by code_simp
  with run have r: "r = Removed ''b.gguf'' False []" by simp
  have "l_files w' = [(''a.gguf'', magic)]"
    using conjunct1 [OF rm_spares_served [OF run], rule_format, OF r] by (simp add: demo_lib_def)
  moreover have "fst (models_rm (\<lambda>_. None) demo_status [demo_node] ''a.gguf'' True False False demo_lib)
      = Rm_blocked [n_name demo_node]"
    by code_simp
  ultimately show ?thesis using run r by auto
qed

text \<open>
  The name check ignores case, discovery and \<open>models rm\<close> do not: a file added as \<open>X.GGUF\<close> is accepted,
  but no node lists it and the remove command does not find it.
\<close>

lemma upper_case_gguf_lost:
  assumes "bt_wf d"
  shows "dest_name ''/home/u/X.GGUF'' = Inr ''X.GGUF''"
    and "visible (bt_insert ''X.GGUF'' bs d) = visible d"
    and "fst (resolve_rm ''X.GGUF'' \<lparr>l_files = [(''X.GGUF'', bs)], l_faults = [], l_seen = []\<rparr>) = Inl (No_match ''X.GGUF'')"
proof -
  show "dest_name ''/home/u/X.GGUF'' = Inr ''X.GGUF''" by code_simp
  have x: "extension ''X.GGUF'' = Some ''GGUF''" by code_simp
  then show "visible (bt_insert ''X.GGUF'' bs d) = visible d"
    using assms by (intro visible_insert) simp_all
  have t: "trim ''X.GGUF'' = ''X.GGUF''" by code_simp
  show "fst (resolve_rm ''X.GGUF'' \<lparr>l_files = [(''X.GGUF'', bs)], l_faults = [], l_seen = []\<rparr>) = Inl (No_match ''X.GGUF'')"
    by (simp add: resolve_rm_def t lib_bind_def lib_do_def Let_def touch_dir_def x pick_name_def)
qed

end
