(* ===== verification/Bench.thy ===== *)
theory Bench
  imports Complex_Main Strs
begin

text \<open>
  The benchmark layer (src/src/bench.rs): the llama-bench flags taken over from the serving flags, the
  result rows, the plausibility guard of a record. A finite f64 is its rational value, the other values
  are constructors; rounding a result to one decimal is a parameter. JSON (serde_json) is a parameter.
\<close>

section \<open>Rates\<close>

datatype f64 = Fin rat | Pos_inf | Neg_inf | Nan

text \<open>The order of f64: a NaN compares with nothing.\<close>

fun f_le :: "f64 \<Rightarrow> f64 \<Rightarrow> bool" where
  "f_le (Fin a) (Fin b) \<longleftrightarrow> a \<le> b"
| "f_le Nan _ \<longleftrightarrow> False"
| "f_le _ Nan \<longleftrightarrow> False"
| "f_le Neg_inf _ \<longleftrightarrow> True"
| "f_le _ Pos_inf \<longleftrightarrow> True"
| "f_le Pos_inf (Fin _) \<longleftrightarrow> False"
| "f_le Pos_inf Neg_inf \<longleftrightarrow> False"
| "f_le (Fin _) Neg_inf \<longleftrightarrow> False"

definition f_less :: "f64 \<Rightarrow> f64 \<Rightarrow> bool" where
  "f_less a b \<longleftrightarrow> f_le a b \<and> \<not> f_le b a"

fun is_finite :: "f64 \<Rightarrow> bool" where
  "is_finite (Fin _) = True"
| "is_finite _ = False"

record 't perf =
  pf_prompt_tok_s :: f64
  pf_gen_tok_s :: f64
  pf_ttft_ms :: f64
  pf_total_ms :: f64
  pf_n_prompt :: nat
  pf_n_gen :: nat
  pf_telemetry :: 't

definition max_plausible_tok_s :: f64 where
  "max_plausible_tok_s = Fin 50000"

definition min_bench_gen :: nat where
  "min_bench_gen = 8"

definition is_plausible :: "'t perf \<Rightarrow> bool" where
  "is_plausible p \<longleftrightarrow>
     pf_n_gen p \<ge> min_bench_gen \<and> is_finite (pf_gen_tok_s p) \<and> f_less (Fin 0) (pf_gen_tok_s p) \<and>
     f_le (pf_gen_tok_s p) max_plausible_tok_s \<and>
     (f_le (pf_prompt_tok_s p) (Fin 0) \<or> f_le (pf_gen_tok_s p) (pf_prompt_tok_s p))"

section \<open>Flags\<close>

record bench_flags =
  g_ngl :: "string option"
  g_fa :: bool
  g_ctk :: "string option"
  g_ctv :: "string option"
  g_threads :: "string option"

text \<open>The scan of the serving flags: an option takes the next token as its value, where there is one.\<close>

fun flags_scan :: "string list \<Rightarrow> bench_flags \<Rightarrow> bench_flags" where
  "flags_scan [] g = g"
| "flags_scan [t] g = (if t = ''-fa'' \<or> t = ''--flash-attn'' then g\<lparr>g_fa := True\<rparr> else g)"
| "flags_scan (t # v # ts) g =
     (if t \<in> {''-ngl'', ''--n-gpu-layers'', ''--gpu-layers''} then flags_scan ts (g\<lparr>g_ngl := Some v\<rparr>)
      else if t \<in> {''-ctk'', ''--cache-type-k''} then flags_scan ts (g\<lparr>g_ctk := Some v\<rparr>)
      else if t \<in> {''-ctv'', ''--cache-type-v''} then flags_scan ts (g\<lparr>g_ctv := Some v\<rparr>)
      else if t \<in> {''-t'', ''--threads''} then flags_scan ts (g\<lparr>g_threads := Some v\<rparr>)
      else if t \<in> {''-fa'', ''--flash-attn''} then
        (if v \<in> {''on'', ''1'', ''true''} then flags_scan ts (g\<lparr>g_fa := True\<rparr>)
         else if v \<in> {''off'', ''0'', ''false''} then flags_scan ts (g\<lparr>g_fa := False\<rparr>)
         else flags_scan (v # ts) (g\<lparr>g_fa := True\<rparr>))
      else flags_scan (v # ts) g)"

definition no_flags :: bench_flags where
  "no_flags = \<lparr>g_ngl = None, g_fa = False, g_ctk = None, g_ctv = None, g_threads = None\<rparr>"

definition opt_arg :: "string \<Rightarrow> string option \<Rightarrow> string list" where
  "opt_arg n v = (case v of None \<Rightarrow> [] | Some x \<Rightarrow> [n, x])"

definition render_flags :: "bench_flags \<Rightarrow> string list" where
  "render_flags g =
     [''-ngl'', case g_ngl g of None \<Rightarrow> ''99'' | Some n \<Rightarrow> n] @ (if g_fa g then [''-fa'', ''1''] else []) @
     opt_arg ''-ctk'' (g_ctk g) @ opt_arg ''-ctv'' (g_ctv g) @ opt_arg ''-t'' (g_threads g)"

definition bench_flags_from :: "string \<Rightarrow> string list" where
  "bench_flags_from serving = render_flags (flags_scan (split_ws serving) no_flags)"

section \<open>The invocation and its result\<close>

record bench_spec =
  bs_prompt :: nat
  bs_gen :: nat
  bs_repeats :: nat

definition bench_argv :: "bench_spec \<Rightarrow> string \<Rightarrow> string list \<Rightarrow> string list" where
  "bench_argv sp model extra =
     [''-o'', ''json'', ''-p'', show_nat (bs_prompt sp), ''-n'', show_nat (bs_gen sp),
      ''-r'', show_nat (max (bs_repeats sp) 1), ''-m'', model] @ extra"

record bench_row =
  br_n_prompt :: nat
  br_n_gen :: nat
  br_avg_ts :: f64
  br_avg_ns :: f64

text \<open>The last prompt-processing row and the last generation row; mixed rows are skipped.\<close>

fun pick_rows :: "bench_row list \<Rightarrow> bench_row option \<Rightarrow> bench_row option \<Rightarrow> bench_row option \<times> bench_row option" where
  "pick_rows [] pp tg = (pp, tg)"
| "pick_rows (r # rs) pp tg =
     (if br_n_gen r = 0 \<and> br_n_prompt r > 0 then pick_rows rs (Some r) tg
      else if br_n_prompt r = 0 \<and> br_n_gen r > 0 then pick_rows rs pp (Some r)
      else pick_rows rs pp tg)"

definition clamp_rate :: "f64 \<Rightarrow> f64" where
  "clamp_rate x = (if is_finite x \<and> f_le (Fin 0) x \<and> f_le x max_plausible_tok_s then x else Fin 0)"

datatype bench_error = Bench_bad_json | Bench_no_rows | Bench_missing | Bench_spawn | Bench_wait | Bench_timeout | Bench_exit

text \<open>\<open>round1\<close> and \<open>ms\<close> (nanoseconds, possibly of two rows, to milliseconds) are the f64 arithmetic.\<close>

definition parse_bench_json :: "(string \<Rightarrow> bench_row list option) \<Rightarrow> (f64 \<Rightarrow> f64) \<Rightarrow> (f64 list \<Rightarrow> f64) \<Rightarrow> 't
    \<Rightarrow> string \<Rightarrow> bench_error + 't perf" where
  "parse_bench_json parse round1 ms dflt out =
     (case parse (trim out) of
        None \<Rightarrow> Inl Bench_bad_json
      | Some rows \<Rightarrow>
          (case pick_rows rows None None of
             (None, None) \<Rightarrow> Inl Bench_no_rows
           | (pp, tg) \<Rightarrow>
               (let zero = \<lparr>br_n_prompt = 0, br_n_gen = 0, br_avg_ts = Fin 0, br_avg_ns = Fin 0\<rparr>;
                    p = (case pp of None \<Rightarrow> zero | Some r \<Rightarrow> r); g = (case tg of None \<Rightarrow> zero | Some r \<Rightarrow> r)
                in Inr \<lparr>pf_prompt_tok_s = round1 (clamp_rate (br_avg_ts p)),
                     pf_gen_tok_s = round1 (clamp_rate (br_avg_ts g)),
                     pf_ttft_ms = round1 (ms [br_avg_ns p]), pf_total_ms = round1 (ms [br_avg_ns p, br_avg_ns g]),
                     pf_n_prompt = br_n_prompt p mod 2 ^ 32, pf_n_gen = br_n_gen g mod 2 ^ 32,
                     pf_telemetry = dflt\<rparr>)))"

text \<open>
  A run: what starting the child and waiting for it within the deadline gave; the telemetry of the sampler
  comes last. \<open>run\<close> is the operating system: it gets the binary, the library path, the environment and the
  arguments.
\<close>

datatype bench_child = No_child | Wait_failed | Killed_late | Exited bool string

definition run_llama_bench :: "(string \<Rightarrow> bench_error + 't perf) \<Rightarrow> (string \<Rightarrow> bool)
    \<Rightarrow> (string \<Rightarrow> string option \<Rightarrow> 'e \<Rightarrow> string list \<Rightarrow> bench_child) \<Rightarrow> 't \<Rightarrow> bench_spec
    \<Rightarrow> string \<Rightarrow> string option \<Rightarrow> 'e \<Rightarrow> string \<Rightarrow> string list \<Rightarrow> bench_error + 't perf" where
  "run_llama_bench parse exists run tel sp bin ld env model extra =
     (if \<not> exists bin then Inl Bench_missing
      else case run bin ld env (bench_argv sp model extra) of
             No_child \<Rightarrow> Inl Bench_spawn
           | Wait_failed \<Rightarrow> Inl Bench_wait
           | Killed_late \<Rightarrow> Inl Bench_timeout
           | Exited ok out \<Rightarrow>
               if \<not> ok then Inl Bench_exit
               else (case parse out of Inl e \<Rightarrow> Inl e | Inr p \<Rightarrow> Inr (p\<lparr>pf_telemetry := tel\<rparr>)))"

section \<open>Properties\<close>

text \<open>Flag strings as the profiles write them: options with a value each, and other words.\<close>

datatype token =
    T_ngl string
  | T_ctk string
  | T_ctv string
  | T_threads string
  | T_fa bool
  | T_other string

definition known_options :: "string set" where
  "known_options = {''-ngl'', ''--n-gpu-layers'', ''--gpu-layers'', ''-ctk'', ''--cache-type-k'', ''-ctv'', ''--cache-type-v'',
     ''-t'', ''--threads'', ''-fa'', ''--flash-attn''}"

fun token_ok :: "token \<Rightarrow> bool" where
  "token_ok (T_ngl v) = word_ok v"
| "token_ok (T_ctk v) = word_ok v"
| "token_ok (T_ctv v) = word_ok v"
| "token_ok (T_threads v) = word_ok v"
| "token_ok (T_fa on) = True"
| "token_ok (T_other w) = (word_ok w \<and> w \<notin> known_options)"

fun words_of :: "token \<Rightarrow> string list" where
  "words_of (T_ngl v) = [''-ngl'', v]"
| "words_of (T_ctk v) = [''-ctk'', v]"
| "words_of (T_ctv v) = [''-ctv'', v]"
| "words_of (T_threads v) = [''-t'', v]"
| "words_of (T_fa on) = [''-fa'', if on then ''on'' else ''off'']"
| "words_of (T_other w) = [w]"

fun set_flag :: "token \<Rightarrow> bench_flags \<Rightarrow> bench_flags" where
  "set_flag (T_ngl v) g = g\<lparr>g_ngl := Some v\<rparr>"
| "set_flag (T_ctk v) g = g\<lparr>g_ctk := Some v\<rparr>"
| "set_flag (T_ctv v) g = g\<lparr>g_ctv := Some v\<rparr>"
| "set_flag (T_threads v) g = g\<lparr>g_threads := Some v\<rparr>"
| "set_flag (T_fa on) g = g\<lparr>g_fa := on\<rparr>"
| "set_flag (T_other w) g = g"

lemma flags_scan_other: "w \<notin> known_options \<Longrightarrow> flags_scan (w # ts) g = flags_scan ts g"
  by (cases ts) (auto simp: known_options_def)

lemma flags_scan_token: "token_ok t \<Longrightarrow> flags_scan (words_of t @ ts) g = flags_scan ts (set_flag t g)"
  by (cases t) (auto simp: flags_scan_other)

lemma flags_scan_tokens:
  "list_all token_ok ts \<Longrightarrow> flags_scan (concat (map words_of ts)) g = fold set_flag ts g"
  by (induction ts arbitrary: g) (auto simp: flags_scan_token)

definition last_value :: "(token \<Rightarrow> 'a option) \<Rightarrow> token list \<Rightarrow> 'a option" where
  "last_value f ts = (case filter (\<lambda>t. f t \<noteq> None) (rev ts) of [] \<Rightarrow> None | t # _ \<Rightarrow> f t)"

fun ngl_of :: "token \<Rightarrow> string option" where "ngl_of (T_ngl v) = Some v" | "ngl_of _ = None"
fun ctk_of :: "token \<Rightarrow> string option" where "ctk_of (T_ctk v) = Some v" | "ctk_of _ = None"
fun ctv_of :: "token \<Rightarrow> string option" where "ctv_of (T_ctv v) = Some v" | "ctv_of _ = None"
fun threads_of :: "token \<Rightarrow> string option" where "threads_of (T_threads v) = Some v" | "threads_of _ = None"
fun fa_of :: "token \<Rightarrow> bool option" where "fa_of (T_fa b) = Some b" | "fa_of _ = None"

lemma last_value_snoc: "last_value f (ts @ [t]) = (case f t of None \<Rightarrow> last_value f ts | Some v \<Rightarrow> Some v)"
  by (simp add: last_value_def split: option.splits)

lemma fold_set_flag:
  "fold set_flag ts no_flags = \<lparr>g_ngl = last_value ngl_of ts, g_fa = (last_value fa_of ts = Some True),
     g_ctk = last_value ctk_of ts, g_ctv = last_value ctv_of ts, g_threads = last_value threads_of ts\<rparr>"
proof (induction ts rule: rev_induct)
  case Nil
  show ?case by (simp add: no_flags_def last_value_def)
next
  case (snoc t ts)
  then show ?case by (cases t) (simp_all add: last_value_snoc)
qed

lemma words_of_ok: "token_ok t \<Longrightarrow> list_all word_ok (words_of t)"
  by (cases t) (auto simp: word_ok_def is_ws_def)



lemma clamp_rate_range: "\<exists>r. clamp_rate x = Fin r \<and> 0 \<le> r \<and> r \<le> 50000"
  by (cases x) (auto simp: clamp_rate_def max_plausible_tok_s_def)

lemma plausible_finite: "is_plausible p \<Longrightarrow> \<exists>r. pf_gen_tok_s p = Fin r \<and> 0 < r \<and> r \<le> 50000"
  by (cases "pf_gen_tok_s p") (auto simp: is_plausible_def f_less_def max_plausible_tok_s_def)

end
