(* ===== verification/Nodeops.thy ===== *)
theory Nodeops
  imports Settings Cluster Bench
begin

text \<open>
  The operations of a node (src/src/nodeops.rs): choosing a model, the effective flags, loading,
  unloading, restaging, restoring after a boot, benchmarking; with the active-cluster marker of
  src/src/cluster.rs. The world of a node is its systemd unit, its files (settings, history), the two
  markers and whether another process holds the GPU lock. What a node reads and does not change (the
  discovered models, the profiles, the overrides, the installed builds, the TOML and JSON codecs) is
  the environment record \<open>nenv\<close>.
\<close>

section \<open>The world of a node\<close>

record active_cluster =
  ac_name :: string
  ac_members :: "string list"
  ac_endpoints :: "string list"

record nworld =
  nw_sys :: sysd
  nw_files :: files
  nw_active :: "active_cluster option"
  nw_marker :: bool
  nw_busy :: bool
  nw_stuck :: bool
  nw_log :: "(string \<times> bool) list"

record 'a nenv =
  v_bin :: "string \<Rightarrow> string \<Rightarrow> string option"
  v_dir :: "string \<Rightarrow> string option"
  v_version :: "string \<Rightarrow> string option"
  v_models :: "model list"
  v_profiles :: "profile list option"
  v_overrides :: omap
  v_parse :: "string \<Rightarrow> 'a settings option"
  v_render :: "'a settings \<Rightarrow> string option"
  v_settings :: "string option"
  v_stamp :: nat
  v_keypath :: string
  v_base_env :: envmap
  v_own_run :: bool

datatype node_error =
    Gpu_busy
  | Query_blank
  | Query_unmatched string
  | Query_ambiguous "string list"
  | Not_chat string
  | Profiles_unreadable
  | No_default_profile
  | Key_file string
  | Swap_failed swap_error
  | Command string
  | Not_serving
  | Unknown_served
  | Served_not_found string
  | Build_missing string
  | Cluster_without_endpoints string
  | Bench_failed string
  | History_failed string
  | Unknown_action string

definition with_sys :: "(sysd \<Rightarrow> 'r \<times> sysd) \<Rightarrow> nworld \<Rightarrow> 'r \<times> nworld" where
  "with_sys f w = (let (r, s) = f (nw_sys w) in (r, w\<lparr>nw_sys := s\<rparr>))"

text \<open>A privileged command by name; the log keeps whether it succeeded.\<close>

definition command :: "string \<Rightarrow> (sysd \<Rightarrow> sysd) \<Rightarrow> (string, nworld) step" where
  "command c f w =
     (let (r, w) = with_sys (sudo f) w in (r, w\<lparr>nw_log := (c, is_ok r) # nw_log w\<rparr>))"

definition stop_service :: "sysd \<Rightarrow> sysd" where
  "stop_service s = s\<lparr>service := None\<rparr>"

section \<open>Choosing a model\<close>

definition resolve_model :: "model list \<Rightarrow> string \<Rightarrow> node_error + model" where
  "resolve_model ms query =
     (let q = lower (trim query) in
      if q = [] then Inl Query_blank
      else case filter (\<lambda>m. contains (lower (m_name m)) q) ms of
             [] \<Rightarrow> Inl (Query_unmatched query)
           | [m] \<Rightarrow> Inr m
           | xs \<Rightarrow> Inl (Query_ambiguous (take 8 (map m_name xs))))"

function trim_start_matches :: "string \<Rightarrow> string \<Rightarrow> string" where
  "trim_start_matches p s =
     (if p \<noteq> [] \<and> starts_with s p then trim_start_matches p (drop (length p) s) else s)"
  by pat_completeness auto
termination
  by (relation "measure (\<lambda>(p, s). length s)") (auto simp: prefix_def)

declare trim_start_matches.simps [simp del]

definition parse_bind :: "string \<Rightarrow> string \<times> nat" where
  "parse_bind url =
     (let s = hd (split_on sep (trim_start_matches ''https://'' (trim_start_matches ''http://'' url))) in
      case rsplit_once CHR '':'' s of
        None \<Rightarrow> (''127.0.0.1'', 8080)
      | Some (h, p) \<Rightarrow>
          (case parse_uint max_u16 p of None \<Rightarrow> (''127.0.0.1'', 8080) | Some port \<Rightarrow> (h, port)))"

definition effective_flags :: "'a nenv \<Rightarrow> profile \<Rightarrow> model \<Rightarrow> string \<times> bool" where
  "effective_flags env p m =
     (case bt_get (v_overrides env) (m_name m) of
        Some f \<Rightarrow> (f, True)
      | None \<Rightarrow> (adjust_flags p m, False))"

section \<open>Listing\<close>

record model_row =
  w_model :: model
  w_served :: bool
  w_profile_id :: string
  w_used_default :: bool
  w_bin :: string
  w_flags :: string
  w_overridden :: bool
  w_mem :: "Mem.estimate"

text \<open>\<open>max_u64\<close> stands in where the model declares no training context.\<close>

definition row_ctx :: "u64 option \<Rightarrow> u64 option \<Rightarrow> u64" where
  "row_ctx flag mx =
     min (case flag of Some c \<Rightarrow> c | None \<Rightarrow> (case mx of Some c \<Rightarrow> c | None \<Rightarrow> 32768))
         (case mx of Some c \<Rightarrow> c | None \<Rightarrow> - 1)"

definition list_row :: "'a nenv \<Rightarrow> profile list \<Rightarrow> (string \<Rightarrow> dims option) \<Rightarrow> uma option \<Rightarrow> string option \<Rightarrow> model
    \<Rightarrow> model_row option" where
  "list_row env ps dims_of budget served m =
     map_option (\<lambda>(p, dflt).
       (let (fl, ov) = effective_flags env p m; (c, kv) = ctx_kv_from_flags fl
        in \<lparr>w_model = m, w_served = (served = Some (m_name m)), w_profile_id = pid p, w_used_default = dflt,
            w_bin = fst (launch (v_bin env) (v_dir env) p), w_flags = fl, w_overridden = ov,
            w_mem = Mem.estimate (m_size m) (dims_of (m_path m)) (row_ctx c (m_ctx_max m)) (or_else kv ''f16'') budget\<rparr>))
       (resolve_profile ps (m_arch m) (m_quant m))"

definition list_rows :: "'a nenv \<Rightarrow> (string \<Rightarrow> dims option) \<Rightarrow> uma option \<Rightarrow> string option
    \<Rightarrow> node_error + model_row list" where
  "list_rows env dims_of budget served =
     (case v_profiles env of
        None \<Rightarrow> Inl Profiles_unreadable
      | Some ps \<Rightarrow> or_err (those (map (list_row env ps dims_of budget served) (v_models env))) No_default_profile)"

section \<open>The active-cluster marker\<close>

definition record_active :: "active_cluster \<Rightarrow> nworld \<Rightarrow> nworld" where
  "record_active ac w = w\<lparr>nw_active := Some ac\<rparr>"

text \<open>The error of removing the marker is dropped.\<close>

definition clear_active :: "nworld \<Rightarrow> nworld" where
  "clear_active w = (if nw_stuck w then w else w\<lparr>nw_active := None\<rparr>)"

section \<open>Loading\<close>

definition default_opts :: swap_opts where
  "default_opts = \<lparr>o_host = ''127.0.0.1'', o_port = 8080, o_attempts = 24, o_prewarm = True, o_base_env = []\<rparr>"

definition node_settings :: "'a nenv \<Rightarrow> nworld \<Rightarrow> 'a settings" where
  "node_settings env w = load_settings (v_parse env) (v_settings env) (nw_files w)"

definition set_served_model :: "'a nenv \<Rightarrow> string \<Rightarrow> nworld \<Rightarrow> nworld" where
  "set_served_model env m w =
     w\<lparr>nw_files := snd (change_setting (v_parse env) (v_render env) (v_stamp env) (v_settings env)
        (Set_served_model m) (nw_files w))\<rparr>"

text \<open>The flags with the key file of the configured key, which is written first.\<close>

definition key_flags :: "'a nenv \<Rightarrow> string \<Rightarrow> nworld \<Rightarrow> (string + string) \<times> nworld" where
  "key_flags env fl w =
     (case api_key (node_settings env w) of
        None \<Rightarrow> (Inr fl, w)
      | Some k \<Rightarrow>
          (case with_sys (write_api_key_file (v_keypath env) k) w of
             (Inl e, w) \<Rightarrow> (Inl e, w)
           | (Inr path, w) \<Rightarrow> (Inr (fl @ '' --api-key-file '' @ path), w)))"

definition load_opts :: "'a nenv \<Rightarrow> node \<Rightarrow> nworld \<Rightarrow> swap_opts" where
  "load_opts env n w =
     default_opts\<lparr>o_host := bind_host (node_settings env w), o_port := snd (parse_bind (n_llama_url n)),
       o_base_env := v_base_env env\<rparr>"

definition after_load :: "'a nenv \<Rightarrow> model \<Rightarrow> nworld \<Rightarrow> nworld" where
  "after_load env m w =
     (let w = set_served_model env (m_name m) w in if nw_active w = None then w else clear_active w)"

definition load_model_on :: "'a nenv \<Rightarrow> node \<Rightarrow> model \<Rightarrow> profile \<Rightarrow> bool \<Rightarrow> nworld
    \<Rightarrow> (node_error + swap_outcome \<times> bool \<times> bool) \<times> nworld" where
  "load_model_on env n m p dflt w =
     (let (fl, ov) = effective_flags env p m in
      case key_flags env fl w of
        (Inl e, w) \<Rightarrow> (Inl (Key_file e), w)
      | (Inr fl, w) \<Rightarrow>
          (case with_sys (swap (v_bin env) (v_dir env) systemd http_health (n_llama_unit n) m p fl (load_opts env n w)) w of
             (Inl e, w) \<Rightarrow> (Inl (Swap_failed e), w)
           | (Inr out, w) \<Rightarrow>
               (Inr (out, dflt, \<not> ov \<and> adjust_flags p m \<noteq> flags p), if s_ok out then after_load env m w else w)))"

definition pick_launch :: "'a nenv \<Rightarrow> string \<Rightarrow> node_error + model \<times> profile \<times> bool" where
  "pick_launch env query =
     try_then (resolve_model (v_models env) query) (\<lambda>m.
       if \<not> is_chat_model (m_name m) then Inl (Not_chat (m_name m))
       else try_then (or_err (v_profiles env) Profiles_unreadable) (\<lambda>ps.
         try_then (or_err (resolve_profile ps (m_arch m) (m_quant m)) No_default_profile) (\<lambda>(p, dflt).
           Inr (m, p, dflt))))"

definition node_load :: "'a nenv \<Rightarrow> node \<Rightarrow> string \<Rightarrow> nworld
    \<Rightarrow> (node_error + swap_outcome \<times> bool \<times> bool) \<times> nworld" where
  "node_load env n query w =
     (if nw_busy w then (Inl Gpu_busy, w)
      else case pick_launch env query of
             Inl e \<Rightarrow> (Inl e, w)
           | Inr (m, p, dflt) \<Rightarrow> load_model_on env n m p dflt w)"

section \<open>The other operations\<close>

definition node_unload :: "node \<Rightarrow> (string, nworld) step" where
  "node_unload n w =
     (case with_sys (clear_dropin (n_llama_unit n)) w of
        (Inl e, w) \<Rightarrow> (Inl e, w)
      | (Inr _, w) \<Rightarrow> (Inr (), clear_active w))"

definition server_ctl :: "string \<Rightarrow> nworld \<Rightarrow> (node_error + unit) \<times> nworld" where
  "server_ctl action w =
     (if action = ''stop'' \<or> action = ''start'' \<or> action = ''restart''
      then (case command action (if action = ''stop'' then stop_service else start_service) w of
              (Inl e, w) \<Rightarrow> (Inl (Command e), w)
            | (Inr _, w) \<Rightarrow> (Inr (), w))
      else (Inl (Unknown_action action), w))"

definition logs_argv :: "string \<Rightarrow> nat \<Rightarrow> bool \<Rightarrow> string list" where
  "logs_argv u k follow = [''-u'', u, ''--no-pager'', ''-n'', show_nat k] @ (if follow then [''-f''] else [])"

text \<open>Stop the unit, its error dropped, and load again.\<close>

definition reload :: "'a nenv \<Rightarrow> node \<Rightarrow> string \<Rightarrow> nworld \<Rightarrow> bool \<times> nworld" where
  "reload env n name w =
     (let (_, w) = command ''stop'' stop_service w; (r, w) = node_load env n name w in (is_ok r, w))"

definition restage_served :: "'a nenv \<Rightarrow> node \<Rightarrow> nworld \<Rightarrow> bool \<times> nworld" where
  "restage_served env n w =
     (case served_model (node_settings env w) of
        Some name \<Rightarrow> reload env n name w
      | None \<Rightarrow>
          (case with_sys http_served w of
             (None, w) \<Rightarrow> (False, w)
           | (Some name, w) \<Rightarrow> reload env n name w))"

text \<open>\<open>expose\<close> opens or closes the port in the firewall.\<close>

definition set_exposure :: "'a nenv \<Rightarrow> (nat \<Rightarrow> bool \<Rightarrow> bool \<times> 'b) \<Rightarrow> node \<Rightarrow> bool \<Rightarrow> nworld
    \<Rightarrow> (string + bool \<times> bool \<times> 'b) \<times> nworld" where
  "set_exposure env expose n on w =
     (case change_setting (v_parse env) (v_render env) (v_stamp env) (v_settings env) (Set_exposed on) (nw_files w) of
        (Inl e, fs) \<Rightarrow> (Inl e, w\<lparr>nw_files := fs\<rparr>)
      | (Inr _, fs) \<Rightarrow>
          (let (fw, b) = expose (snd (parse_bind (n_llama_url n))) on;
               (ok, w) = restage_served env n (w\<lparr>nw_files := fs\<rparr>)
           in (Inr (ok, fw, b), w)))"

definition boot_restore :: "'a nenv \<Rightarrow> (nat \<Rightarrow> bool \<Rightarrow> bool \<times> 'b) \<Rightarrow> node \<Rightarrow> nworld \<Rightarrow> (bool \<times> bool) \<times> nworld" where
  "boot_restore env expose n w =
     (let w = clear_active w;
          (loaded, w) = (case served_model (node_settings env w) of
             Some m \<Rightarrow> reload env n m w
           | None \<Rightarrow> (False, w))
      in ((loaded, if exposed (node_settings env w) then fst (expose (snd (parse_bind (n_llama_url n))) True) else True), w))"

section \<open>Benchmarking\<close>

record ('p) bench_record =
  r_ts :: nat
  r_node :: string
  r_model :: string
  r_arch :: string
  r_quant :: "string option"
  r_ctx :: nat
  r_profile :: string
  r_perf :: 'p
  r_build :: "string option"
  r_cluster :: "string option"
  r_members :: "string list"

text \<open>What the run reads from outside: the server's properties, the bench itself, the clock, the history file.\<close>

record 'p bench_env =
  b_props :: "(string option \<times> nat option) option"
  b_run :: "string \<Rightarrow> string option \<Rightarrow> envmap \<Rightarrow> string \<Rightarrow> string list \<Rightarrow> string + 'p"
  b_now :: nat
  b_hparse :: "string \<Rightarrow> 'p bench_record list option"
  b_hrender :: "'p bench_record list \<Rightarrow> string option"
  b_hpath :: string

text \<open>Architecture, quantisation and profile of the served model; unknown where its file is not found.\<close>

definition served_meta :: "'a nenv \<Rightarrow> string \<Rightarrow> string \<times> string option \<times> string" where
  "served_meta env nm =
     (case find (\<lambda>m. m_name m = nm) (v_models env) of
        None \<Rightarrow> (''?'', None, ''?'')
      | Some m \<Rightarrow>
          (m_arch m, m_quant m,
           case v_profiles env of
             None \<Rightarrow> ''?''
           | Some ps \<Rightarrow> (case resolve_profile ps (m_arch m) (m_quant m) of None \<Rightarrow> ''?'' | Some (p, _) \<Rightarrow> pid p)))"

record bench_plan =
  p_bin :: string
  p_ld :: "string option"
  p_penv :: envmap
  p_file :: string
  p_extra :: "string list"
  p_build :: "string option"

definition pool_flags :: "active_cluster option \<Rightarrow> node_error + string list" where
  "pool_flags ac =
     (case ac of
        None \<Rightarrow> Inr []
      | Some a \<Rightarrow> if ac_endpoints a = [] then Inl (Cluster_without_endpoints (ac_name a))
                 else Inr [''--rpc'', join '','' (ac_endpoints a)])"

definition bench_plan_for :: "'a nenv \<Rightarrow> active_cluster option \<Rightarrow> string \<Rightarrow> node_error + bench_plan" where
  "bench_plan_for env ac nm =
     try_then (or_err (find (\<lambda>m. m_name m = nm) (v_models env)) (Served_not_found nm)) (\<lambda>m.
     try_then (or_err (v_profiles env) Profiles_unreadable) (\<lambda>ps.
     try_then (or_err (resolve_profile ps (m_arch m) (m_quant m)) No_default_profile) (\<lambda>(p, _).
       (let (exe, ld) = launch (v_bin env) (v_dir env) p in
        if sep \<notin> set exe then Inl (Build_missing (pid p))
        else try_then (pool_flags ac) (\<lambda>rpc.
          Inr \<lparr>p_bin = with_file_name exe ''llama-bench'', p_ld = ld, p_penv = penv p, p_file = m_path m,
            p_extra = bench_flags_from (fst (effective_flags env p m)) @ rpc,
            p_build = (case managed p of None \<Rightarrow> None | Some b \<Rightarrow> v_version env b)\<rparr>)))))"

text \<open>
  The pause marker: written directly where the directory is ours, otherwise through sudo (mkdir, then
  tee, both best effort); removed when the guard goes out of scope.
\<close>

definition set_marker :: "bool \<Rightarrow> nworld \<Rightarrow> nworld" where
  "set_marker own w =
     (if own then w\<lparr>nw_marker := True\<rparr>
      else (let (_, w) = with_sys (sudo id) w; (_, w) = with_sys (sudo_tee (\<lambda>_. id) []) w
            in w\<lparr>nw_marker := True\<rparr>))"

definition drop_marker :: "bool \<Rightarrow> nworld \<Rightarrow> nworld" where
  "drop_marker own w =
     (if own \<or> \<not> nw_marker w then w\<lparr>nw_marker := False\<rparr>
      else (let (r, w) = with_sys (sudo id) w in if is_ok r then w\<lparr>nw_marker := False\<rparr> else w))"

definition append_history :: "'p bench_env \<Rightarrow> 'p bench_record \<Rightarrow> nworld
    \<Rightarrow> (node_error + 'p bench_record) \<times> nworld" where
  "append_history be rec w =
     (case append_record (b_hparse be) (b_hrender be) (b_hpath be) (r_ts rec) rec (nw_files w) of
        (Inl e, fs) \<Rightarrow> (Inl (History_failed e), w\<lparr>nw_files := fs\<rparr>)
      | (Inr _, fs) \<Rightarrow> (Inr rec, w\<lparr>nw_files := fs\<rparr>))"

definition bench_record_for :: "'a nenv \<Rightarrow> 'p bench_env \<Rightarrow> node \<Rightarrow> active_cluster option \<Rightarrow> bench_plan \<Rightarrow> string
    \<Rightarrow> nat option \<Rightarrow> 'p \<Rightarrow> 'p bench_record" where
  "bench_record_for env be n ac pl nm ctx perf =
     (let (arch, quant, prof) = served_meta env nm in
      \<lparr>r_ts = b_now be, r_node = n_name n, r_model = nm, r_arch = arch, r_quant = quant, r_ctx = or_else ctx 0,
       r_profile = prof, r_perf = perf, r_build = p_build pl, r_cluster = map_option ac_name ac,
       r_members = (case ac of None \<Rightarrow> [] | Some a \<Rightarrow> ac_members a)\<rparr>)"

text \<open>
  With the marker set: stop the server, run the bench, bring the server back and wait for it, drop the
  marker. The bench's error counts before the restart's.
\<close>

definition bench_paused :: "'a nenv \<Rightarrow> 'p bench_env \<Rightarrow> node \<Rightarrow> bench_plan \<Rightarrow> nworld \<Rightarrow> (node_error + 'p) \<times> nworld" where
  "bench_paused env be n pl w =
     (case command ''stop'' stop_service w of
        (Inl e, w) \<Rightarrow> (Inl (Command e), drop_marker (v_own_run env) w)
      | (Inr _, w) \<Rightarrow>
          (let perf = b_run be (p_bin pl) (p_ld pl) (p_penv pl) (p_file pl) (p_extra pl);
               (_, w) = command ''reset-failed'' id w;
               (restart, w) = command ''start'' start_service w;
               (_, w) = with_sys (poll_health http_health 24) w;
               w = drop_marker (v_own_run env) w
           in (case perf of
                 Inl e \<Rightarrow> (Inl (Bench_failed e), w)
               | Inr p \<Rightarrow> (case restart of Inl e \<Rightarrow> (Inl (Command e), w) | Inr _ \<Rightarrow> (Inr p, w)))))"

definition node_bench :: "'a nenv \<Rightarrow> 'p bench_env \<Rightarrow> node \<Rightarrow> nworld \<Rightarrow> (node_error + 'p bench_record) \<times> nworld" where
  "node_bench env be n w =
     (if nw_busy w then (Inl Gpu_busy, w)
      else case b_props be of
        None \<Rightarrow> (Inl Not_serving, w)
      | Some (None, _) \<Rightarrow> (Inl Unknown_served, w)
      | Some (Some nm, ctx) \<Rightarrow>
          (case bench_plan_for env (nw_active w) nm of
             Inl e \<Rightarrow> (Inl e, w)
           | Inr pl \<Rightarrow>
               (let ac = nw_active w in
                case bench_paused env be n pl (set_marker (v_own_run env) w) of
                  (Inl e, w) \<Rightarrow> (Inl e, w)
                | (Inr perf, w) \<Rightarrow> append_history be (bench_record_for env be n ac pl nm ctx perf) w)))"

section \<open>What a load guarantees\<close>

lemma read_dropin_aside [simp]: "read_dropin (s\<lparr>sfaults := fs, keyfile := k\<rparr>) = read_dropin s"
  by (rule ext) (simp add: read_dropin_def)

lemma collect_in_aside [simp]: "collect_in P (s\<lparr>sfaults := fs, keyfile := k\<rparr>) rs = collect_in P s rs"
  by (induction rs) (simp_all add: scan_dropins_def conf_files_def writable_def install_root_def)

lemma sysd_ok_aside: "sysd_ok (s\<lparr>sfaults := fs, keyfile := k\<rparr>) = sysd_ok s"
  by (simp add: sysd_ok_def dir_ok_def collect_dropins_def)

text \<open>Writing the key file leaves everything else of the unit alone.\<close>

definition key_only :: "sysd \<Rightarrow> sysd \<Rightarrow> bool" where
  "key_only s s' \<longleftrightarrow> s'\<lparr>sfaults := [], keyfile := None\<rparr> = s\<lparr>sfaults := [], keyfile := None\<rparr>"

lemma key_only_trans: "key_only s s1 \<Longrightarrow> key_only s1 s2 \<Longrightarrow> key_only s s2"
  by (simp add: key_only_def)

lemma key_only_sel:
  assumes "key_only s s'"
  shows "confs s' = confs s" and "service s' = service s" and "sysd_ok s' = sysd_ok s"
proof -
  let ?z = "\<lambda>s. s\<lparr>sfaults := [], keyfile := None\<rparr>"
  from assms have z: "?z s' = ?z s" by (simp add: key_only_def)
  show "confs s' = confs s" using arg_cong [OF z, of confs] by simp
  show "service s' = service s" using arg_cong [OF z, of service] by simp
  show "sysd_ok s' = sysd_ok s" using arg_cong [OF z, of sysd_ok] by (simp only: sysd_ok_aside)
qed

lemma sudo_key_only:
  assumes "sudo f s = (r, s')" and "\<And>s. key_only s (f s)"
  shows "key_only s s'"
  using assms(1)
proof (rule sudo_cases)
  fix fs assume "s' = f (s\<lparr>sfaults := fs\<rparr>)"
  moreover have "key_only s (s\<lparr>sfaults := fs\<rparr>)" by (simp add: key_only_def)
  ultimately show ?thesis using assms(2) key_only_trans by blast
qed (simp add: key_only_def)

lemma tee_key_only:
  "sudo_tee put_key c s = (r, s') \<Longrightarrow> key_only s s' \<and> (r = Inr () \<longrightarrow> keyfile s' = Some c)"
  by (cases "sfaults s"; cases "hd (sfaults s)") (auto simp: sudo_tee_def put_key_def key_only_def)

lemma write_api_key_effect:
  assumes "write_api_key_file path k s = (r, s')"
  shows "key_only s s' \<and> (\<forall>x. r = Inr x \<longrightarrow> x = path \<and> keyfile s' = Some k)"
proof -
  obtain r1 s1 where 1: "sudo id s = (r1, s1)" by (rule prod.exhaust)
  obtain r2 s2 where 2: "sudo (put_key []) s1 = (r2, s2)" by (rule prod.exhaust)
  obtain r3 s3 where 3: "sudo_tee put_key k s2 = (r3, s3)" by (rule prod.exhaust)
  obtain r4 s4 where 4: "sudo id s3 = (r4, s4)" by (rule prod.exhaust)
  have k1: "key_only s s1" by (rule sudo_key_only [OF 1]) (simp add: key_only_def)
  have k2: "key_only s1 s2" by (rule sudo_key_only [OF 2]) (simp add: key_only_def put_key_def)
  have k3: "key_only s2 s3" "r3 = Inr () \<longrightarrow> keyfile s3 = Some k" using tee_key_only [OF 3] by auto
  have k4: "key_only s3 s4" by (rule sudo_key_only [OF 4]) (simp add: key_only_def)
  have f4: "keyfile s4 = keyfile s3" using 4 by (rule sudo_cases) simp_all
  have "r1 \<noteq> Inr () \<and> s' = s1 \<and> \<not> is_ok r \<or> r2 \<noteq> Inr () \<and> s' = s2 \<and> \<not> is_ok r \<or>
      r3 \<noteq> Inr () \<and> s' = s3 \<and> \<not> is_ok r \<or> r3 = Inr () \<and> s' = s4 \<and> (r = Inr path \<or> \<not> is_ok r)"
    using assms 1 2 3 4
    by (cases r1; cases r2; cases r3; cases r4) (auto simp: write_api_key_file_def sudo_tee_secret_def and_then_def)
  with k1 k2 k3 k4 f4 show ?thesis by (auto intro: key_only_trans)
qed

definition key_suffix :: "'a nenv \<Rightarrow> nworld \<Rightarrow> string" where
  "key_suffix env w = (case api_key (node_settings env w) of None \<Rightarrow> [] | Some _ \<Rightarrow> '' --api-key-file '' @ v_keypath env)"

lemma key_flags_effect:
  assumes "key_flags env fl w = (r, w')"
  shows "key_only (nw_sys w) (nw_sys w') \<and> nw_files w' = nw_files w \<and> nw_active w' = nw_active w \<and>
    nw_stuck w' = nw_stuck w \<and> (\<forall>x. r = Inr x \<longrightarrow> x = fl @ key_suffix env w)"
proof (cases "api_key (node_settings env w)")
  case None
  with assms show ?thesis by (auto simp: key_flags_def key_suffix_def key_only_def)
next
  case (Some k)
  obtain r1 s1 where 1: "write_api_key_file (v_keypath env) k (nw_sys w) = (r1, s1)" by (rule prod.exhaust)
  from write_api_key_effect [OF 1] assms Some 1 show ?thesis
    by (cases r1) (auto simp: key_flags_def key_suffix_def with_sys_def)
qed

lemma swap_to: "swap fb fd A H u m p fl opts w = (Inr out, w') \<Longrightarrow> s_to out = m_name m"
  by (auto simp: swap_def Let_def settle_def finish_ok_def failed_def split: prod.splits sum.splits option.splits if_splits bool.splits)

text \<open>What the caller learns from a finished swap, over the state before it.\<close>

definition swapped_ok :: "string \<Rightarrow> string \<Rightarrow> conf_map \<Rightarrow> conf_map option \<Rightarrow> swap_outcome \<Rightarrow> sysd \<Rightarrow> bool" where
  "swapped_ok nm d c live out s' \<longleftrightarrow>
     s_to out = nm \<and> \<not> (s_ok out \<and> s_reverted out) \<and>
     (s_ok out \<longrightarrow> (if s_detail out = Already_served then confs s' = c \<and> service s' = live
        else conf_wins d (confs s') \<and> service s' = Some (confs s'))) \<and>
     (s_reverted out \<longrightarrow> conf_within c (confs s') \<and> service s' = Some (confs s'))"

definition loaded_ok :: "'a nenv \<Rightarrow> node \<Rightarrow> model \<Rightarrow> profile \<Rightarrow> nworld \<Rightarrow> swap_outcome \<Rightarrow> nworld \<Rightarrow> bool" where
  "loaded_ok env n m p w out w' \<longleftrightarrow>
     swapped_ok (m_name m)
       (swap_dropin (v_bin env) (v_dir env) m p (fst (effective_flags env p m) @ key_suffix env w) (load_opts env n w))
       (confs (nw_sys w)) (service (nw_sys w)) out (nw_sys w')"

lemma loaded_ok_swap:
  assumes run: "swap fb fd systemd http_health u m p fl opts s = (Inr out, s')" and ok: "sysd_ok s"
  shows "swapped_ok (m_name m) (swap_dropin fb fd m p fl opts) (confs s) (service s) out s'"
  using sd.swap_contract [OF run ok refl] swap_to [OF run]
  unfolding swapped_ok_def sd.outcome_ok_def by (auto split: if_splits)

lemma node_settings_files: "nw_files w' = nw_files w \<Longrightarrow> node_settings env w' = node_settings env w"
  by (simp add: node_settings_def)

lemma load_opts_files: "nw_files w' = nw_files w \<Longrightarrow> load_opts env n w' = load_opts env n w"
  by (simp add: load_opts_def node_settings_def)

lemma after_load_effect:
  "nw_sys (after_load env m w) = nw_sys w \<and>
   nw_files (after_load env m w) = nw_files (set_served_model env (m_name m) w) \<and>
   (\<not> nw_stuck w \<longrightarrow> nw_active (after_load env m w) = None)"
  by (simp add: after_load_def Let_def set_served_model_def clear_active_def)

lemma load_model_on_effect:
  assumes run: "load_model_on env n m p dflt w = (r, w')" and ok: "sysd_ok (nw_sys w)"
  shows "(\<exists>e. r = Inl e) \<and> nw_files w' = nw_files w \<and> nw_active w' = nw_active w \<or>
    (\<exists>out adj. r = Inr (out, dflt, adj) \<and> loaded_ok env n m p w out w' \<and>
       (if s_ok out then nw_files w' = nw_files (set_served_model env (m_name m) w) \<and> (\<not> nw_stuck w \<longrightarrow> nw_active w' = None)
        else nw_files w' = nw_files w \<and> nw_active w' = nw_active w))"
proof -
  obtain fl ov where ef: "effective_flags env p m = (fl, ov)" by (rule prod.exhaust)
  obtain r1 w1 where 1: "key_flags env fl w = (r1, w1)" by (rule prod.exhaust)
  note k = key_flags_effect [OF 1]
  show ?thesis
  proof (cases r1)
    case (Inl e)
    have "(r, w') = (Inl (Key_file e), w1)"
      unfolding run [symmetric] load_model_on_def ef 1 Inl Let_def prod.case sum.case ..
    with k show ?thesis by simp
  next
    case (Inr fl1)
    with k have fl1: "fl1 = fl @ key_suffix env w" and f1: "nw_files w1 = nw_files w" "nw_active w1 = nw_active w"
      "nw_stuck w1 = nw_stuck w" and ko: "key_only (nw_sys w) (nw_sys w1)" by simp_all
    note sel = key_only_sel [OF ko]
    obtain r2 s2 where 2: "swap (v_bin env) (v_dir env) systemd http_health (n_llama_unit n) m p fl1 (load_opts env n w1) (nw_sys w1)
        = (r2, s2)" by (rule prod.exhaust)
    let ?w2 = "w1\<lparr>nw_sys := s2\<rparr>"
    show ?thesis
    proof (cases r2)
      case (Inl e)
      have "(r, w') = (Inl (Swap_failed e), ?w2)"
        unfolding run [symmetric] load_model_on_def ef 1 Inr with_sys_def Let_def prod.case sum.case 2 Inl ..
      with f1 show ?thesis by simp
    next
      case out: (Inr out)
      have "(r, w') = (Inr (out, dflt, \<not> ov \<and> adjust_flags p m \<noteq> flags p), if s_ok out then after_load env m ?w2 else ?w2)"
        unfolding run [symmetric] load_model_on_def ef 1 Inr with_sys_def Let_def prod.case sum.case 2 out ..
      then have r: "r = Inr (out, dflt, \<not> ov \<and> adjust_flags p m \<noteq> flags p)"
        and w': "w' = (if s_ok out then after_load env m ?w2 else ?w2)" by simp_all
      have s': "nw_sys w' = s2" unfolding w' using after_load_effect [of env m ?w2] by simp
      have "fl1 = fst (effective_flags env p m) @ key_suffix env w" by (simp add: fl1 ef)
      note run2 = 2 [unfolded out this load_opts_files [OF f1(1)]]
      have "loaded_ok env n m p w out w'"
        using loaded_ok_swap [OF run2 ok [folded sel(3)]] by (simp add: loaded_ok_def s' sel)
      moreover have "if s_ok out then nw_files w' = nw_files (set_served_model env (m_name m) w) \<and> (\<not> nw_stuck w \<longrightarrow> nw_active w' = None)
        else nw_files w' = nw_files w \<and> nw_active w' = nw_active w"
        unfolding w' using f1 after_load_effect [of env m ?w2] by (simp add: set_served_model_def)
      ultimately show ?thesis using r by blast
    qed
  qed
qed


definition demo_env :: "unit nenv" where
  "demo_env = \<lparr>v_bin = (\<lambda>_ _. None), v_dir = (\<lambda>_. None), v_version = (\<lambda>_. None), v_models = [demo_model],
     v_profiles = Some [demo_bin\<lparr>pid := default_id\<rparr>], v_overrides = [(''x.gguf'', ''-c 4096'')], v_parse = (\<lambda>_. None),
     v_render = (\<lambda>_. None), v_settings = None, v_stamp = 0, v_keypath = ''/var/lib/llmtune/api-key'',
     v_base_env = [], v_own_run = True\<rparr>"

definition demo_world :: "bool list \<Rightarrow> nworld" where
  "demo_world ps = \<lparr>nw_sys = demo_sysd ps, nw_files = \<lparr>f_map = [], f_faults = []\<rparr>,
     nw_active = Some \<lparr>ac_name = ''pool'', ac_members = [''w1''], ac_endpoints = [''w1:50052'']\<rparr>, nw_marker = False,
     nw_busy = False, nw_stuck = False, nw_log = []\<rparr>"

lemma demo_launch_default: "launch (\<lambda>_ _. None) (\<lambda>_. None) (demo_bin\<lparr>pid := default_id\<rparr>) = (''/b/s'', ld_path demo_profile)"
  by (simp add: launch_def managed_def demo_bin_def)

lemma demo_swap_any:
  assumes "o_attempts opts = Suc k"
  shows "\<exists>out w'. swap (\<lambda>_ _. None) (\<lambda>_. None) systemd http_health u demo_model (demo_bin\<lparr>pid := default_id\<rparr>) fl opts (demo_sysd [True])
    = (Inr out, w') \<and> s_ok out \<and> s_detail out = Loaded"
proof -
  have "http_served (demo_sysd [True]) = (Some ''old'', demo_sysd [True]\<lparr>replies := []\<rparr>)"
    by (simp add: http_served_def demo_sysd_def)
  then show ?thesis using assms
    by (simp add: demo_collect demo_eval demo_launch_default) (simp add: demo_sysd_def demo_eval)
qed

lemma demo_pick: "pick_launch demo_env ''X'' = Inr (demo_model, demo_bin\<lparr>pid := default_id\<rparr>, True)"
proof -
  have a: "resolve_model [demo_model] ''X'' = Inr demo_model" by (simp add: resolve_model_def demo_model_def) code_simp
  have b: "is_chat_model (m_name demo_model)" by code_simp
  have c: "resolve_profile [demo_bin\<lparr>pid := default_id\<rparr>] (m_arch demo_model) (m_quant demo_model)
      = Some (demo_bin\<lparr>pid := default_id\<rparr>, True)"
    by (simp add: resolve_profile_def)
  show ?thesis by (simp add: pick_launch_def demo_env_def a b c or_err_def)
qed


text \<open>
  A model whose name is part of another model's name cannot be loaded: every query that matches it
  matches the other one too, the exact name included.
\<close>

lemma shadowed_model_unloadable:
  assumes "m1 \<in> set ms" and "m2 \<in> set ms" and "m1 \<noteq> m2" and "contains (lower (m_name m2)) (lower (m_name m1))"
  shows "resolve_model ms query \<noteq> Inr m1"
proof
  assume r: "resolve_model ms query = Inr m1"
  let ?P = "\<lambda>m. contains (lower (m_name m)) (lower (trim query))"
  from r have f: "filter ?P ms = [m1]"
    by (auto simp: resolve_model_def Let_def split: if_splits list.splits)
  then have "?P m1" by (auto dest!: filter_eq_ConsD)
  with assms(4) have "?P m2" using sublist_order.order.trans by blast
  with assms(2) have "m2 \<in> set (filter ?P ms)" by simp
  with f assms(3) show False by simp
qed

section \<open>A benchmark gives the server back\<close>

text \<open>What a bench leaves alone until it appends its record.\<close>

definition frame :: "nworld \<Rightarrow> files \<times> active_cluster option \<times> conf_map" where
  "frame w = (nw_files w, nw_active w, confs (nw_sys w))"

lemma command_cases:
  assumes f: "\<And>s. confs (f s) = confs s"
  obtains (ok) w' fs where "command c f w = (Inr (), w')" and "nw_sys w' = f ((nw_sys w)\<lparr>sfaults := fs\<rparr>)"
      and "nw_log w' = (c, True) # nw_log w" and "frame w' = frame w" and "nw_marker w' = nw_marker w"
  | (bad) e w' fs where "command c f w = (Inl e, w')" and "nw_sys w' = (nw_sys w)\<lparr>sfaults := fs\<rparr>"
      and "nw_log w' = (c, False) # nw_log w" and "frame w' = frame w" and "nw_marker w' = nw_marker w"
proof -
  obtain r s' where 1: "sudo f (nw_sys w) = (r, s')" by (rule prod.exhaust)
  let ?w' = "w\<lparr>nw_sys := s', nw_log := (c, is_ok r) # nw_log w\<rparr>"
  have c: "command c f w = (r, ?w')" by (simp add: command_def with_sys_def 1)
  from 1 show thesis
  proof (rule sudo_cases)
    fix fs assume "r = Inr ()" "s' = f ((nw_sys w)\<lparr>sfaults := fs\<rparr>)"
    with c f show thesis by (intro ok [of ?w' fs]) (simp_all add: frame_def)
  next
    fix fs e assume "r = Inl e" "s' = (nw_sys w)\<lparr>sfaults := fs\<rparr>"
    with c show thesis by (intro bad [of e ?w' fs]) (simp_all add: frame_def)
  qed
qed

lemma wait_frame:
  assumes "with_sys (poll_health http_health k) w = (b, w')"
  shows "frame w' = frame w \<and> service (nw_sys w') = service (nw_sys w) \<and> nw_log w' = nw_log w \<and> nw_marker w' = nw_marker w"
proof -
  obtain b1 s1 where 1: "poll_health http_health k (nw_sys w) = (b1, s1)" by (rule prod.exhaust)
  from sd.poll_frame [OF 1] sd.cfg_book [of s1 "nw_sys w"] assms 1 show ?thesis
    by (auto simp: with_sys_def frame_def)
qed

lemma drop_marker_frame:
  "frame (drop_marker own w) = frame w \<and> service (nw_sys (drop_marker own w)) = service (nw_sys w) \<and>
   nw_log (drop_marker own w) = nw_log w \<and> (own \<longrightarrow> \<not> nw_marker (drop_marker own w))"
proof (cases "own \<or> \<not> nw_marker w")
  case False
  obtain r s where 1: "sudo id (nw_sys w) = (r, s)" by (rule prod.exhaust)
  from 1 have "confs s = confs (nw_sys w) \<and> service s = service (nw_sys w)" by (rule sudo_cases) simp_all
  with False 1 show ?thesis by (simp add: drop_marker_def with_sys_def frame_def)
qed (simp add: drop_marker_def frame_def)

lemma set_marker_frame:
  "frame (set_marker own w) = frame w \<and> service (nw_sys (set_marker own w)) = service (nw_sys w) \<and>
   nw_log (set_marker own w) = nw_log w"
proof (cases own)
  case False
  obtain r s where 1: "sudo id (nw_sys w) = (r, s)" by (rule prod.exhaust)
  obtain r2 s2 where 2: "sudo_tee (\<lambda>_. id) [] s = (r2, s2)" by (rule prod.exhaust)
  from 1 have "confs s = confs (nw_sys w) \<and> service s = service (nw_sys w)" by (rule sudo_cases) simp_all
  moreover have "confs s2 = confs s \<and> service s2 = service s"
    using 2 by (cases "sfaults s"; cases "hd (sfaults s)") (auto simp: sudo_tee_def)
  ultimately show ?thesis using False 1 2 by (simp add: set_marker_def with_sys_def frame_def)
qed (simp add: set_marker_def frame_def)

definition given_back :: "nworld \<Rightarrow> (string \<times> bool) list \<Rightarrow> nworld \<Rightarrow> bool" where
  "given_back w l w' \<longleftrightarrow> frame w' = frame w \<and> nw_log w' = l @ nw_log w \<and>
     (service (nw_sys w) \<noteq> None \<longrightarrow> service (nw_sys w') = None \<longrightarrow> (''start'', False) \<in> set l)"

lemma stop_confs: "confs (stop_service s) = confs s"
  by (simp add: stop_service_def)

lemma start_confs: "confs (start_service s) = confs s"
  by (simp add: start_service_def)

lemma id_confs: "confs (id s) = confs s"
  by simp

lemma bench_paused_effect:
  assumes run: "bench_paused env be n pl w = (r, w')"
  shows "\<exists>l. given_back w l w' \<and> (v_own_run env \<longrightarrow> \<not> nw_marker w') \<and>
    (\<forall>p. r = Inr p \<longrightarrow> b_run be (p_bin pl) (p_ld pl) (p_penv pl) (p_file pl) (p_extra pl) = Inr p \<and>
       service (nw_sys w') = Some (confs (nw_sys w')))"
  using stop_confs
proof (cases rule: command_cases [where f = stop_service and c = "''stop''" and w = w])
  case (bad e w1 fs)
  with run have "r = Inl (Command e)" "w' = drop_marker (v_own_run env) w1" by (simp_all add: bench_paused_def)
  with bad drop_marker_frame [of "v_own_run env" w1] show ?thesis
    by (intro exI [of _ "[(''stop'', False)]"]) (simp add: given_back_def)
next
  case (ok w1 fs)
  obtain r2 w2 where 2: "command ''reset-failed'' id w1 = (r2, w2)" by (rule prod.exhaust)
  obtain r3 w3 where 3: "command ''start'' start_service w2 = (r3, w3)" by (rule prod.exhaust)
  obtain r4 w4 where 4: "with_sys (poll_health http_health 24) w3 = (r4, w4)" by (rule prod.exhaust)
  let ?w5 = "drop_marker (v_own_run env) w4"
  let ?p = "b_run be (p_bin pl) (p_ld pl) (p_penv pl) (p_file pl) (p_extra pl)"
  have w': "w' = ?w5" and r: "\<forall>p. r = Inr p \<longrightarrow> ?p = Inr p \<and> r3 = Inr ()"
    using run ok(1) 2 3 4 by (auto simp: bench_paused_def Let_def split: sum.splits)
  have f2: "frame w2 = frame w1" "\<exists>b. nw_log w2 = (''reset-failed'', b) # nw_log w1"
    by (cases rule: command_cases [where f = id and c = "''reset-failed''" and w = w1, OF id_confs]; use 2 in auto)+
  have f3: "frame w3 = frame w2 \<and> nw_log w3 = (''start'', is_ok r3) # nw_log w2 \<and>
      (r3 = Inr () \<longrightarrow> service (nw_sys w3) = Some (confs (nw_sys w3)))"
    by (cases rule: command_cases [where f = start_service and c = "''start''" and w = w2, OF start_confs]) (use 3 in \<open>auto simp: start_service_def\<close>)
  note f4 = wait_frame [OF 4] and f5 = drop_marker_frame [of "v_own_run env" w4]
  obtain b where b: "nw_log w2 = (''reset-failed'', b) # nw_log w1" using f2(2) by blast
  have same: "frame ?w5 = frame w" using ok(4) f2(1) f3 f4 f5 by simp
  have live: "r3 = Inr () \<longrightarrow> service (nw_sys ?w5) = Some (confs (nw_sys ?w5))"
    using f3 f4 f5 by (auto simp: frame_def)
  have log: "nw_log ?w5 = [(''start'', is_ok r3), (''reset-failed'', b), (''stop'', True)] @ nw_log w"
    using ok(3) b f3 f4 f5 by simp
  have "given_back w [(''start'', is_ok r3), (''reset-failed'', b), (''stop'', True)] w'"
    using same live log by (cases r3) (auto simp: given_back_def w')
  with r live f5 w' show ?thesis by blast
qed

lemma given_back_none: "given_back w [] w"
  by (simp add: given_back_def)

lemma append_history_frame:
  "append_history be rec w = (r, w') \<Longrightarrow>
     nw_sys w' = nw_sys w \<and> nw_log w' = nw_log w \<and> nw_active w' = nw_active w \<and> nw_marker w' = nw_marker w \<and>
     (\<forall>x. r = Inr x \<longrightarrow> x = rec) \<and> (\<forall>e. r = Inl e \<longrightarrow> (\<exists>x. e = History_failed x))"
  by (auto simp: append_history_def split: prod.splits sum.splits)

lemma pool_flags_Inr:
  assumes "pool_flags ac = Inr rpc"
  shows "rpc = (case ac of None \<Rightarrow> [] | Some a \<Rightarrow> [''--rpc'', join '','' (ac_endpoints a)])"
  using assms by (cases ac) (auto simp: pool_flags_def split: if_splits)

lemma bench_plan_extra:
  assumes "bench_plan_for env ac nm = Inr pl"
  obtains fl where "p_extra pl = fl @ (case ac of None \<Rightarrow> [] | Some a \<Rightarrow> [''--rpc'', join '','' (ac_endpoints a)])"
proof -
  from assms obtain m ps p d where "(case launch (v_bin env) (v_dir env) p of (exe, ld) \<Rightarrow>
        if sep \<notin> set exe then Inl (Build_missing (pid p))
        else try_then (pool_flags ac) (\<lambda>rpc.
          Inr \<lparr>p_bin = with_file_name exe ''llama-bench'', p_ld = ld, p_penv = penv p, p_file = m_path m,
            p_extra = bench_flags_from (fst (effective_flags env p m)) @ rpc,
            p_build = (case managed p of None \<Rightarrow> None | Some b \<Rightarrow> v_version env b)\<rparr>)) = Inr pl"
    unfolding bench_plan_for_def try_then_Inr Let_def by (elim exE conjE) (simp split: prod.splits)
  then obtain rpc where r: "pool_flags ac = Inr rpc" and e: "p_extra pl = bench_flags_from (fst (effective_flags env p m)) @ rpc"
    by (cases "launch (v_bin env) (v_dir env) p") (auto simp: try_then_Inr split: if_splits)
  from e show thesis unfolding pool_flags_Inr [OF r] by (rule that)
qed



definition demo_bench :: "unit bench_env" where
  "demo_bench = \<lparr>b_props = Some (Some (m_name demo_model), Some 4096), b_run = (\<lambda>_ _ _ _ _. Inr ()), b_now = 7,
     b_hparse = (\<lambda>_. None), b_hrender = (\<lambda>_. Some ''records''), b_hpath = ''/var/lib/llmtune/bench-history.json''\<rparr>"

lemma demo_plan: "\<exists>pl. bench_plan_for demo_env (nw_active (demo_world ps)) (m_name demo_model) = Inr pl"
  by (simp add: bench_plan_for_def demo_env_def demo_world_def or_err_def resolve_profile_def demo_launch_default
      pool_flags_def) (simp add: demo_eval)

lemma sudo_no_faults: "sfaults s = [] \<Longrightarrow> sudo f s = (Inr (), f s)"
  by (cases s) (simp add: sudo_def)

lemma bench_paused_runs:
  assumes "sfaults (nw_sys w) = []" "v_own_run env" "b_run be (p_bin pl) (p_ld pl) (p_penv pl) (p_file pl) (p_extra pl) = Inr p"
  obtains w1 where "bench_paused env be n pl w = (Inr p, w1)" "nw_files w1 = nw_files w"
  using assms by (simp add: bench_paused_def command_def with_sys_def sudo_no_faults stop_service_def start_service_def
      Let_def drop_marker_def)
    (cases "poll_health http_health 24 (nw_sys w\<lparr>service := Some (confs (nw_sys w))\<rparr>)"; simp)

lemma append_first_record:
  assumes "read_text (nw_files w) (b_hpath be) = None" "f_faults (nw_files w) = []" "\<And>rs. b_hrender be rs \<noteq> None"
  obtains w' where "append_history be rec w = (Inr rec, w')"
proof -
  have "b_hrender be (take max_records [rec]) \<noteq> None" by (rule assms(3))
  then obtain t where "b_hrender be (take max_records [rec]) = Some t" by blast
  then show thesis
    by (intro that [of "w\<lparr>nw_files := snd (put_text (b_hpath be) t (nw_files w))\<rparr>"])
      (simp add: assms(1,2) append_history_def append_record_def Let_def file_is_corrupt_def load_history_def
        save_toml_def put_text_def file_call_def)
qed


end
