(* ===== verification/Spec2Isabelle.thy ===== *)
theory Spec2Isabelle
  imports Profile Model Lock Cluster Settings Library Nodeops
begin

text \<open>Root.\<close>

end
